theory Spec2Isabelle
  imports Main "HOL-Library.Word" "HOL-Library.List_Lexorder" "HOL-Library.Char_ord"
    "HOL-Library.Multiset"
begin

unbundle bit_operations_syntax

section \<open>Bytes and strings\<close>

text \<open>
  A Go \<open>string\<close> and a Go \<open>[]byte\<close> are both sequences of bytes, and \<open>len\<close> and slicing
  count bytes. Isabelle's \<^typ>\<open>char\<close> is a byte, so both are modelled as \<^typ>\<open>string\<close>.
\<close>

type_synonym bytes = string

abbreviation NUL :: char where
  "NUL \<equiv> CHR 0x00"

text \<open>
  \<open>bytes.IndexByte\<close>: the index of the first occurrence of \<open>c\<close>, or \<open>-1\<close> when there is none.
\<close>

definition IndexByte :: "bytes \<Rightarrow> char \<Rightarrow> int" where
  "IndexByte b c = (if c \<in> set b then int (length (takeWhile (\<lambda>x. x \<noteq> c) b)) else - 1)"

text \<open>The verb \<open>%d\<close> of \<open>fmt.Sprintf\<close> on a length (never negative): base 10, most significant digit first.\<close>

definition digit :: "nat \<Rightarrow> char" where
  "digit d = char_of (of_char (CHR ''0'') + d)"

function decimal :: "nat \<Rightarrow> string" where
  "decimal n = (if n < 10 then [digit n] else decimal (n div 10) @ [digit (n mod 10)])"
  by pat_completeness auto
termination
  by (relation "measure id") auto

declare decimal.simps [simp del]

text \<open>The number a string of decimal digits denotes, used to state what \<^const>\<open>decimal\<close> renders.\<close>

definition digits_value :: "string \<Rightarrow> nat" where
  "digits_value s = foldl (\<lambda>a c. 10 * a + (of_char c - of_char (CHR ''0''))) 0 s"

section \<open>\<open>encoding/hex\<close>\<close>

definition hextable :: string where
  "hextable = ''0123456789abcdef''"

definition hex_EncodeToString :: "bytes \<Rightarrow> string" where
  "hex_EncodeToString src =
     concat (map (\<lambda>v. [hextable ! (of_char v div 16), hextable ! (of_char v mod 16)]) src)"

datatype error =
    ErrorsNew string          \<comment> \<open>\<open>errors.New(msg)\<close>\<close>
  | PathError string string   \<comment> \<open>an \<open>*os.PathError\<close>: operation and path\<close>
  | ZlibError                 \<comment> \<open>an error of \<open>zlib.NewReader\<close> or of reading from it\<close>
  | HexError                  \<comment> \<open>an error of \<open>hex.DecodeString\<close>\<close>

definition fromHexChar :: "char \<Rightarrow> nat option" where
  "fromHexChar c =
     (let n = (of_char c :: nat) in
      if of_char (CHR ''0'') \<le> n \<and> n \<le> of_char (CHR ''9'') then Some (n - of_char (CHR ''0''))
      else if of_char (CHR ''a'') \<le> n \<and> n \<le> of_char (CHR ''f'') then Some (n - of_char (CHR ''a'') + 10)
      else if of_char (CHR ''A'') \<le> n \<and> n \<le> of_char (CHR ''F'') then Some (n - of_char (CHR ''A'') + 10)
      else None)"

fun hex_DecodeString :: "string \<Rightarrow> error + bytes" where
  "hex_DecodeString (p # q # rest) =
     (case (fromHexChar p, fromHexChar q) of
        (Some a, Some b) \<Rightarrow>
          (case hex_DecodeString rest of
             Inl e \<Rightarrow> Inl e
           | Inr bs \<Rightarrow> Inr (char_of (16 * a + b) # bs))
      | _ \<Rightarrow> Inl HexError)"
| "hex_DecodeString [p] = Inl HexError"
| "hex_DecodeString [] = Inr []"

section \<open>\<open>crypto/sha1\<close>\<close>

text \<open>
  \<open>sha1.Sum\<close> is the SHA-1 of FIPS 180: the message is padded with \<open>0x80\<close>, zeros and its length
  in bits as 8 big-endian bytes up to a multiple of 64 bytes; each 64-byte block is read as 16
  big-endian 32-bit words, expanded to 80, and run through 80 rounds on five 32-bit words.
\<close>

type_synonym u32 = "32 word"
type_synonym chain = "u32 \<times> u32 \<times> u32 \<times> u32 \<times> u32"

definition be32 :: "char \<Rightarrow> char \<Rightarrow> char \<Rightarrow> char \<Rightarrow> u32" where
  "be32 a b c d =
     push_bit 24 (of_char a) OR push_bit 16 (of_char b) OR push_bit 8 (of_char c) OR of_char d"

fun words_of :: "bytes \<Rightarrow> u32 list" where
  "words_of (a # b # c # d # rest) = be32 a b c d # words_of rest"
| "words_of _ = []"

definition u32_bytes :: "u32 \<Rightarrow> bytes" where
  "u32_bytes w = map (\<lambda>i. char_of (unat (drop_bit i w))) [24, 16, 8, 0]"

definition u64_bytes :: "nat \<Rightarrow> bytes" where
  "u64_bytes n = map (\<lambda>i. char_of (drop_bit i n)) [56, 48, 40, 32, 24, 16, 8, 0]"

definition pad :: "bytes \<Rightarrow> bytes" where
  "pad m =
     m @ CHR 0x80 #
     replicate (if length m mod 64 < 56 then 55 - length m mod 64 else 119 - length m mod 64) NUL @
     u64_bytes (take_bit 64 (length m * 8))"

definition rotl :: "nat \<Rightarrow> u32 \<Rightarrow> u32" where
  "rotl n x = push_bit n x OR drop_bit (32 - n) x"

text \<open>
  The message schedule, kept newest word first: the word at index \<open>t\<close> is built from those at
  \<open>t - 3\<close>, \<open>t - 8\<close>, \<open>t - 14\<close> and \<open>t - 16\<close>.
\<close>

fun expand :: "nat \<Rightarrow> u32 list \<Rightarrow> u32 list" where
  "expand 0 rs = rs"
| "expand (Suc n) rs = expand n (rotl 1 (rs ! 2 XOR rs ! 7 XOR rs ! 13 XOR rs ! 15) # rs)"

definition schedule :: "bytes \<Rightarrow> u32 list" where
  "schedule p = rev (expand 64 (rev (words_of p)))"

definition f0 :: "u32 \<Rightarrow> u32 \<Rightarrow> u32 \<Rightarrow> u32" where
  "f0 b c d = (b AND c) OR (NOT b AND d)"

definition f1 :: "u32 \<Rightarrow> u32 \<Rightarrow> u32 \<Rightarrow> u32" where
  "f1 b c d = b XOR c XOR d"

definition f2 :: "u32 \<Rightarrow> u32 \<Rightarrow> u32 \<Rightarrow> u32" where
  "f2 b c d = ((b OR c) AND d) OR (b AND c)"

fun round1 :: "(u32 \<Rightarrow> u32 \<Rightarrow> u32 \<Rightarrow> u32) \<Rightarrow> u32 \<Rightarrow> chain \<Rightarrow> u32 \<Rightarrow> chain" where
  "round1 f k (a, b, c, d, e) w = (rotl 5 a + f b c d + e + w + k, a, rotl 30 b, c, d)"

definition rounds :: "chain \<Rightarrow> u32 list \<Rightarrow> chain" where
  "rounds h ws =
     foldl (round1 f1 0xCA62C1D6)
       (foldl (round1 f2 0x8F1BBCDC)
         (foldl (round1 f1 0x6ED9EBA1)
           (foldl (round1 f0 0x5A827999) h (take 20 ws))
           (take 20 (drop 20 ws)))
         (take 20 (drop 40 ws)))
       (drop 60 ws)"

fun add5 :: "chain \<Rightarrow> chain \<Rightarrow> chain" where
  "add5 (h0, h1, h2, h3, h4) (a, b, c, d, e) = (h0 + a, h1 + b, h2 + c, h3 + d, h4 + e)"

definition block :: "chain \<Rightarrow> bytes \<Rightarrow> chain" where
  "block h p = add5 h (rounds h (schedule p))"

function blocks :: "chain \<Rightarrow> bytes \<Rightarrow> chain" where
  "blocks h p = (if 64 \<le> length p then blocks (block h (take 64 p)) (drop 64 p) else h)"
  by pat_completeness auto
termination
  by (relation "measure (\<lambda>(h, p). length p)") auto

declare blocks.simps [simp del]

definition init_chain :: chain where
  "init_chain = (0x67452301, 0xEFCDAB89, 0x98BADCFE, 0x10325476, 0xC3D2E1F0)"

fun digest_bytes :: "chain \<Rightarrow> bytes" where
  "digest_bytes (a, b, c, d, e) = concat (map u32_bytes [a, b, c, d, e])"

definition sha1_Sum :: "bytes \<Rightarrow> bytes" where
  "sha1_Sum m = digest_bytes (blocks init_chain (pad m))"

section \<open>Addresses\<close>

definition computeHash :: "bytes \<Rightarrow> string" where
  "computeHash data = hex_EncodeToString (sha1_Sum data)"

definition sha1toHex :: "bytes \<Rightarrow> string" where
  "sha1toHex sha1sum = hex_EncodeToString sha1sum"

section \<open>\<open>compress/zlib\<close>\<close>

text \<open>
  The codec is the standard library's, not this repository's. The program only relies on its
  contract: what \<open>zlib.NewWriter\<close> wrote, \<open>zlib.NewReader\<close> reads back. The codec is therefore a
  parameter: \<open>deflate\<close> is the bytes a writer leaves in its buffer after \<open>Write\<close> and \<open>Close\<close>
  (neither fails on a \<open>bytes.Buffer\<close>), \<open>inflate\<close> is \<open>zlib.NewReader\<close> followed by
  \<open>io.ReadAll\<close>, with \<open>None\<close> when either reports an error.
\<close>

record zlib =
  deflate :: "bytes \<Rightarrow> bytes"
  inflate :: "bytes \<Rightarrow> bytes option"

definition zlib_ok :: "zlib \<Rightarrow> bool" where
  "zlib_ok z \<longleftrightarrow> (\<forall>x. inflate z (deflate z x) = Some x)"

section \<open>The file system\<close>

text \<open>
  The files and directories below the working directory, by relative path. Paths are looked up
  as written (the program only builds paths from \<open>.git/objects/\<close> and the characters of an
  address). Permissions, quotas and other causes of failure of the medium are not modelled: an
  operation fails only when the tree of files itself forbids it.
\<close>

datatype node = File bytes | Dir

type_synonym fs = "string \<Rightarrow> node option"

text \<open>The path itself and each of its prefixes that ends before a separator, shortest first.\<close>

fun prefixes_from :: "string \<Rightarrow> string \<Rightarrow> string list" where
  "prefixes_from acc [] = [acc]"
| "prefixes_from acc (c # cs) =
     (if c = CHR ''/'' then acc # prefixes_from (acc @ [c]) cs else prefixes_from (acc @ [c]) cs)"

text \<open>
  \<open>os.MkdirAll\<close>: every missing directory on the path is created; an existing directory is
  left alone; a file where a directory is needed is an error, and then nothing was created.
\<close>

fun mkdirs :: "fs \<Rightarrow> string list \<Rightarrow> error + fs" where
  "mkdirs fs [] = Inr fs"
| "mkdirs fs (d # ds) =
     (case fs d of
        Some (File b) \<Rightarrow> Inl (PathError ''mkdir'' d)
      | _ \<Rightarrow> mkdirs (fs(d \<mapsto> Dir)) ds)"

definition os_MkdirAll :: "fs \<Rightarrow> string \<Rightarrow> error + fs" where
  "os_MkdirAll fs path = mkdirs fs (prefixes_from [] path)"

definition dirname :: "string \<Rightarrow> string" where
  "dirname path =
     (if CHR ''/'' \<in> set path then rev (tl (dropWhile (\<lambda>c. c \<noteq> CHR ''/'') (rev path))) else ''.'')"

text \<open>
  \<open>os.WriteFile\<close>: creates the file or truncates it and writes the data. It fails when the
  directory of the file does not exist or when the name is a directory.
\<close>

definition os_WriteFile :: "fs \<Rightarrow> string \<Rightarrow> bytes \<Rightarrow> error + fs" where
  "os_WriteFile fs name data =
     (if dirname name \<noteq> ''.'' \<and> fs (dirname name) \<noteq> Some Dir then Inl (PathError ''open'' name)
      else if fs name = Some Dir then Inl (PathError ''open'' name)
      else Inr (fs(name \<mapsto> File data)))"

definition os_ReadFile :: "fs \<Rightarrow> string \<Rightarrow> error + bytes" where
  "os_ReadFile fs name =
     (case fs name of
        Some (File b) \<Rightarrow> Inr b
      | Some Dir \<Rightarrow> Inl (PathError ''read'' name)
      | None \<Rightarrow> Inl (PathError ''open'' name))"

section \<open>Writing an object\<close>

text \<open>
  \<open>writeObject\<close> returns the address or an error, and the file system as it left it.
\<close>

definition writeObject :: "zlib \<Rightarrow> string \<Rightarrow> bytes \<Rightarrow> fs \<Rightarrow> (error + string) \<times> fs" where
  "writeObject z objectType content fs =
     (let header = objectType @ '' '' @ decimal (length content) @ [NUL];
          fullContent = header @ content;
          hash = computeHash fullContent;
          compressed = deflate z fullContent;
          dir = ''.git/objects/'' @ take 2 hash
      in case os_MkdirAll fs dir of
           Inl err \<Rightarrow> (Inl err, fs)
         | Inr fs1 \<Rightarrow>
             (let objectPath = dir @ ''/'' @ drop 2 hash
              in case os_WriteFile fs1 objectPath compressed of
                   Inl err \<Rightarrow> (Inl err, fs1)
                 | Inr fs2 \<Rightarrow> (Inr hash, fs2)))"

section \<open>The commands that read\<close>

text \<open>
  A command prints to standard output, or \<open>handleError\<close> prints the error and exits with
  status 1, or the runtime panics.
\<close>

datatype outcome = Stdout string | Exit1 error | Panic string

fun of_result :: "error + string \<Rightarrow> outcome" where
  "of_result (Inl err) = Exit1 err"
| "of_result (Inr out) = Stdout out"

text \<open>\<open>cat-file -p\<close>, from the address on: the payload that is printed.\<close>

definition cat_file :: "zlib \<Rightarrow> fs \<Rightarrow> string \<Rightarrow> error + string" where
  "cat_file z fs hash =
     (if length hash < 40 then Inl (ErrorsNew ''invalid hash'')
      else case os_ReadFile fs (''.git/objects/'' @ take 2 hash @ ''/'' @ drop 2 hash) of
        Inl err \<Rightarrow> Inl err
      | Inr b \<Rightarrow>
          (case inflate z b of
             None \<Rightarrow> Inl ZlibError
           | Some content \<Rightarrow>
               (let nullIndex = IndexByte content NUL
                in if nullIndex = - 1 then Inl (ErrorsNew ''invalid git object format'')
                   else Inr (drop (nat (nullIndex + 1)) content))))"

definition cmd_cat_file :: "zlib \<Rightarrow> fs \<Rightarrow> string list \<Rightarrow> outcome" where
  "cmd_cat_file z fs os_Args =
     (if length os_Args < 4 then Exit1 (ErrorsNew ''usage: got cat-file -p [<args>...]'')
      else if os_Args ! 2 \<noteq> ''-p'' then Exit1 (ErrorsNew ''usage: got cat-file -p [<args>...]'')
      else of_result (cat_file z fs (os_Args ! 3)))"

text \<open>
  The entry type of \<open>writeTree\<close>, and the one local to \<open>ls-tree\<close>, which has a \<open>Type\<close> as well.
\<close>

record TreeEntry =
  Mode :: string
  Name :: string
  Hash :: string

record LsTreeEntry = TreeEntry +
  Type :: string

definition gitModes :: "string \<rightharpoonup> string" where
  "gitModes = map_of
     [(''040000'', ''tree''),
      (''100644'', ''blob''),
      (''100755'', ''blob''),
      (''120000'', ''blob''),
      (''160000'', ''commit'')]"

text \<open>Indexing a Go map with a key it does not hold yields the zero value, here the empty string.\<close>

definition gitModes_at :: "string \<Rightarrow> string" where
  "gitModes_at mode = (case gitModes mode of Some t \<Rightarrow> t | None \<Rightarrow> [])"

text \<open>The parse loop of \<open>ls-tree\<close>: \<open>entries\<close> are the entries appended so far.\<close>

function parseEntries :: "LsTreeEntry list \<Rightarrow> bytes \<Rightarrow> error + LsTreeEntry list" where
  "parseEntries entries data =
     (if length data > 0 then
        (let spaceIdx = IndexByte data (CHR '' '')
         in if spaceIdx = - 1 then Inl (ErrorsNew ''malformed entry: missing mode'')
            else
              (let mode = take (nat spaceIdx) data;
                   data1 = drop (nat (spaceIdx + 1)) data;
                   nullIdx = IndexByte data1 NUL
               in if nullIdx = - 1 then Inl (ErrorsNew ''malformed entry: missing name terminator'')
                  else
                    (let name = take (nat nullIdx) data1;
                         data2 = drop (nat (nullIdx + 1)) data1
                     in if length data2 < 20 then Inl (ErrorsNew ''malformed entry: incomplete hash'')
                        else parseEntries
                               (entries @
                                 [\<lparr>Mode = mode, Name = name, Hash = sha1toHex (take 20 data2),
                                   Type = gitModes_at mode\<rparr>])
                               (drop 20 data2))))
      else Inr entries)"
  by pat_completeness auto
termination
  by (relation "measure (\<lambda>(entries, data). length data)")
     (auto simp: IndexByte_def split: if_splits)

declare parseEntries.simps [simp del]

definition printEntries :: "bool \<Rightarrow> LsTreeEntry list \<Rightarrow> string" where
  "printEntries nameOnly entries =
     concat (map (\<lambda>entry.
        (if nameOnly then Name entry
         else Mode entry @ '' '' @ Type entry @ '' '' @ Hash entry @ '' '' @ Name entry)
        @ [CHR 0x0A]) entries)"

text \<open>\<open>ls-tree\<close>, from the address on.\<close>

definition ls_tree :: "zlib \<Rightarrow> fs \<Rightarrow> bool \<Rightarrow> string \<Rightarrow> error + string" where
  "ls_tree z fs nameOnly hash =
     (if length hash \<noteq> 40 then Inl (ErrorsNew ''invalid hash'')
      else case os_ReadFile fs (''.git/objects/'' @ take 2 hash @ ''/'' @ drop 2 hash) of
        Inl err \<Rightarrow> Inl err
      | Inr b \<Rightarrow>
          (case inflate z b of
             None \<Rightarrow> Inl ZlibError
           | Some content \<Rightarrow>
               (let nullIndex = IndexByte content NUL
                in if nullIndex = - 1 then Inl (ErrorsNew ''invalid git object format'')
                   else case parseEntries [] (drop (nat (nullIndex + 1)) content) of
                          Inl err \<Rightarrow> Inl err
                        | Inr entries \<Rightarrow> Inr (printEntries nameOnly entries))))"

text \<open>
  The argument handling of \<open>ls-tree\<close>. Indexing \<open>os.Args\<close> past its end panics.
\<close>

definition cmd_ls_tree :: "zlib \<Rightarrow> fs \<Rightarrow> string list \<Rightarrow> outcome" where
  "cmd_ls_tree z fs os_Args =
     (if length os_Args < 3 then Exit1 (ErrorsNew ''usage: got ls-tree [<args>...] [hash]'')
      else if os_Args ! 2 = ''--name-only'' then
        (if 3 < length os_Args then of_result (ls_tree z fs True (os_Args ! 3))
         else Panic (''runtime error: index out of range [3] with length '' @ decimal (length os_Args)))
      else of_result (ls_tree z fs False (os_Args ! 2)))"

section \<open>Where an object lives\<close>

text \<open>
  Names for what the program writes inline in three places: the envelope of an object, and the
  directory and the file of an address below \<open>.git/objects\<close>.
\<close>

definition envelope :: "string \<Rightarrow> bytes \<Rightarrow> bytes" where
  "envelope kind payload = kind @ '' '' @ decimal (length payload) @ [NUL] @ payload"

definition objectDir :: "string \<Rightarrow> string" where
  "objectDir hash = ''.git/objects/'' @ take 2 hash"

definition objectPath :: "string \<Rightarrow> string" where
  "objectPath hash = ''.git/objects/'' @ take 2 hash @ ''/'' @ drop 2 hash"

fun is_file :: "node option \<Rightarrow> bool" where
  "is_file (Some (File b)) = True"
| "is_file _ = False"

section \<open>Writing a tree\<close>

text \<open>
  What \<open>writeTree\<close> sees of the working directory: for a directory, what \<open>os.ReadDir\<close> returns
  (the entries by name, in the order of the listing, or \<open>None\<close> for an error); for anything
  else, what \<open>os.ReadFile\<close> returns (\<open>None\<close> for an error) and what \<open>entry.Info()\<close> returns
  (the mode bits, or \<open>None\<close> for an error). \<open>writeTree\<close> reads outside \<open>.git\<close> and writes below
  \<open>.git/objects\<close> only, so what it reads does not change while it runs.
\<close>

datatype wnode =
    WFile "bytes option" "nat option"
  | WDir "(string \<times> wnode) list option"

definition filepath_Join :: "string \<Rightarrow> string \<Rightarrow> string" where
  "filepath_Join dirPath name = (if dirPath = ''.'' then name else dirPath @ ''/'' @ name)"

text \<open>
  The mode of a file entry: \<open>100755\<close> when the metadata could be read and has one of the
  execute bits \<open>0111\<close> (octal, 73), \<open>100644\<close> otherwise.
\<close>

definition fileMode :: "nat option \<Rightarrow> string" where
  "fileMode info =
     (case info of
        Some m \<Rightarrow> if m AND 73 \<noteq> 0 then ''100755'' else ''100644''
      | None \<Rightarrow> ''100644'')"

text \<open>The loop that serialises the entries into \<open>treeContent\<close>.\<close>

fun serializeEntries :: "TreeEntry list \<Rightarrow> bytes \<Rightarrow> error + bytes" where
  "serializeEntries [] treeContent = Inr treeContent"
| "serializeEntries (entry # rest) treeContent =
     (case hex_DecodeString (Hash entry) of
        Inl err \<Rightarrow> Inl err
      | Inr hashBytes \<Rightarrow>
          serializeEntries rest
            (treeContent @ Mode entry @ '' '' @ Name entry @ [NUL] @ hashBytes))"

text \<open>
  How \<open>writeTree\<close> encodes the entries it collected: \<open>sort.Slice\<close> by name, then the loop
  above into an empty buffer. The program has no other encoder of entries, and this one never
  serialises a list it has not sorted.

  \<open>sort.Slice\<close> with \<open>Name[i] < Name[j]\<close>: Go compares strings byte by byte, which is the
  lexicographic order on \<^typ>\<open>string\<close> over the order of \<^typ>\<open>char\<close> by value. \<open>sort.Slice\<close> is
  not stable; the names within one directory are distinct, and then every sort gives the same
  list.
\<close>

definition sortAndSerialize :: "TreeEntry list \<Rightarrow> error + bytes" where
  "sortAndSerialize treeEntries = serializeEntries (sort_key Name treeEntries) []"

function writeTree :: "zlib \<Rightarrow> string \<Rightarrow> wnode \<Rightarrow> fs \<Rightarrow> (error + string) \<times> fs"
  and collectEntries ::
    "zlib \<Rightarrow> string \<Rightarrow> (string \<times> wnode) list \<Rightarrow> TreeEntry list \<Rightarrow> fs \<Rightarrow> (error + TreeEntry list) \<times> fs"
where
  "writeTree z dirPath (WFile content info) fs = (Inl (PathError ''open'' dirPath), fs)"
| "writeTree z dirPath (WDir None) fs = (Inl (PathError ''open'' dirPath), fs)"
| "writeTree z dirPath (WDir (Some entries)) fs =
     (case collectEntries z dirPath entries [] fs of
        (Inl err, fs1) \<Rightarrow> (Inl err, fs1)
      | (Inr treeEntries, fs1) \<Rightarrow>
          (case sortAndSerialize treeEntries of
             Inl err \<Rightarrow> (Inl err, fs1)
           | Inr treeContent \<Rightarrow> writeObject z ''tree'' treeContent fs1))"
| "collectEntries z dirPath [] treeEntries fs = (Inr treeEntries, fs)"
| "collectEntries z dirPath ((name, node) # rest) treeEntries fs =
     (if name = ''.git'' then collectEntries z dirPath rest treeEntries fs
      else case node of
        WDir sub \<Rightarrow>
          (case writeTree z (filepath_Join dirPath name) node fs of
             (Inl err, fs1) \<Rightarrow> (Inl err, fs1)
           | (Inr hash, fs1) \<Rightarrow>
               collectEntries z dirPath rest
                 (treeEntries @ [\<lparr>Mode = ''40000'', Name = name, Hash = hash\<rparr>]) fs1)
      | WFile content info \<Rightarrow>
          (case content of
             None \<Rightarrow> (Inl (PathError ''open'' (filepath_Join dirPath name)), fs)
           | Some fileContent \<Rightarrow>
               (case writeObject z ''blob'' fileContent fs of
                  (Inl err, fs1) \<Rightarrow> (Inl err, fs1)
                | (Inr hash, fs1) \<Rightarrow>
                    collectEntries z dirPath rest
                      (treeEntries @ [\<lparr>Mode = fileMode info, Name = name, Hash = hash\<rparr>]) fs1)))"
  by pat_completeness auto
termination
  by (relation "measure (\<lambda>x. case x of
        Inl (z, dirPath, node, fs) \<Rightarrow> 2 * size node
      | Inr (z, dirPath, entries, treeEntries, fs) \<Rightarrow>
          2 * size_list (size_prod (\<lambda>n. 0) size) entries + 1)")
     auto

section \<open>\<open>init\<close>\<close>

text \<open>
  \<open>init\<close> creates three directories and writes \<open>.git/HEAD\<close>; an error is printed and the
  command goes on.
\<close>

definition cmd_init :: "fs \<Rightarrow> fs" where
  "cmd_init fs =
     (let fs1 = foldl (\<lambda>fs dir. case os_MkdirAll fs dir of Inl err \<Rightarrow> fs | Inr fs' \<Rightarrow> fs')
                  fs [''.git'', ''.git/objects'', ''.git/refs'']
      in case os_WriteFile fs1 ''.git/HEAD'' ''ref: refs/heads/main\<newline>'' of
           Inl err \<Rightarrow> fs1
         | Inr fs2 \<Rightarrow> fs2)"

section \<open>Notions used to state the properties\<close>

text \<open>
  Nothing is in the way of an object: no file where \<open>.git\<close>, \<open>.git/objects\<close> or the directory
  of an address has to be, and no directory where the file of an address has to be.
\<close>

definition store_ready :: "fs \<Rightarrow> bool" where
  "store_ready fs \<longleftrightarrow>
     \<not> is_file (fs ''.git'') \<and> \<not> is_file (fs ''.git/objects'') \<and>
     (\<forall>h. \<not> is_file (fs (objectDir h)) \<and> fs (objectPath h) \<noteq> Some Dir)"

text \<open>
  What the specification calls a corrupt tree payload: while bytes remain, there is no space,
  or no NUL after the space, or fewer than 20 bytes after the NUL.
\<close>

inductive corrupt :: "bytes \<Rightarrow> bool" where
  no_space: "data \<noteq> [] \<Longrightarrow> CHR '' '' \<notin> set data \<Longrightarrow> corrupt data"
| no_NUL: "CHR '' '' \<notin> set mode \<Longrightarrow> NUL \<notin> set rest \<Longrightarrow> corrupt (mode @ '' '' @ rest)"
| short_address:
    "CHR '' '' \<notin> set mode \<Longrightarrow> NUL \<notin> set name \<Longrightarrow> length rest < 20 \<Longrightarrow>
     corrupt (mode @ '' '' @ name @ [NUL] @ rest)"
| later_entry:
    "CHR '' '' \<notin> set mode \<Longrightarrow> NUL \<notin> set name \<Longrightarrow> length addr = 20 \<Longrightarrow> corrupt rest \<Longrightarrow>
     corrupt (mode @ '' '' @ name @ [NUL] @ addr @ rest)"

text \<open>An entry that the tree format can hold, and what \<open>ls-tree\<close> makes of it.\<close>

definition entry_ok :: "TreeEntry \<Rightarrow> bool" where
  "entry_ok e \<longleftrightarrow>
     CHR '' '' \<notin> set (Mode e) \<and> NUL \<notin> set (Name e) \<and>
     length (Hash e) = 40 \<and> set (Hash e) \<subseteq> set hextable"

definition listed :: "TreeEntry \<Rightarrow> LsTreeEntry" where
  "listed e = \<lparr>Mode = Mode e, Name = Name e, Hash = Hash e, Type = gitModes_at (Mode e)\<rparr>"

text \<open>
  A file whose metadata cannot be read, replaced by the same file with metadata that can be
  read and has no execute bit (\<open>0644\<close> octal is 420).
\<close>

primrec readable_info :: "wnode \<Rightarrow> wnode" where
  "readable_info (WFile content info) =
     WFile content (case info of None \<Rightarrow> Some 420 | Some m \<Rightarrow> Some m)"
| "readable_info (WDir sub) = WDir (map_option (map (map_prod id readable_info)) sub)"

text \<open>The 20 raw bytes of an address, and the bytes of one entry in a tree payload.\<close>

definition address_bytes :: "string \<Rightarrow> bytes" where
  "address_bytes hash = (case hex_DecodeString hash of Inl err \<Rightarrow> [] | Inr b \<Rightarrow> b)"

definition entry_bytes :: "TreeEntry \<Rightarrow> bytes" where
  "entry_bytes e = Mode e @ '' '' @ Name e @ [NUL] @ address_bytes (Hash e)"

text \<open>
  A part of the working directory all of which can be read: every directory can be listed
  and every file can be read. (Reading the metadata of a file may still fail.)
\<close>

fun readable :: "wnode \<Rightarrow> bool" where
  "readable (WFile content info) \<longleftrightarrow> content \<noteq> None"
| "readable (WDir None) \<longleftrightarrow> False"
| "readable (WDir (Some entries)) \<longleftrightarrow> (\<forall>entry \<in> set entries. readable (snd entry))"

text \<open>Writing an object and reading it back by the address that was returned.\<close>

definition read_back :: "zlib \<Rightarrow> string \<Rightarrow> bytes \<Rightarrow> fs \<Rightarrow> error + string" where
  "read_back z kind payload fs =
     (case writeObject z kind payload fs of
        (Inl err, fs') \<Rightarrow> Inl err
      | (Inr address, fs') \<Rightarrow> cat_file z fs' address)"

section \<open>Concrete data for the examples\<close>

text \<open>
  A codec for the closed examples: the two header bytes of a zlib stream, then the data as
  they are. The general theorems are about an arbitrary codec; the closed examples need a
  concrete one, and what they show of this one follows from lemmas that hold for every codec
  that reads back what it wrote.
\<close>

definition zlib_stored :: zlib where
  "zlib_stored =
     \<lparr>deflate = (\<lambda>x. CHR 0x78 # CHR 0x9C # x),
      inflate = (\<lambda>b. case b of
                        m # f # x \<Rightarrow> if m = CHR 0x78 \<and> f = CHR 0x9C then Some x else None
                      | _ \<Rightarrow> None)\<rparr>"

text \<open>The payload of the blob scenario, and the message schedule of its only SHA-1 block.\<close>

definition hello :: bytes where
  "hello = ''hello'' @ [CHR 0x0A]"

definition hello_W :: "u32 list" where
  "hello_W =
    [0x626C6F62, 0x20360068, 0x656C6C6F, 0x0A800000, 0x00000000, 0x00000000,
     0x00000000, 0x00000000, 0x00000000, 0x00000000, 0x00000000, 0x00000000,
     0x00000000, 0x00000000, 0x00000000, 0x00000068, 0x0E00061A, 0x556C00D0,
     0xCAD8D80E, 0x09000C34, 0xAAD801A0, 0x95B1B01D, 0x12001868, 0x55B00391,
     0x37636C0F, 0x8ED83170, 0x3ED1B73F, 0x7CC6C076, 0x480061A0, 0x56C00E95,
     0xC18DBC08, 0x91B8C512, 0x4AF7791D, 0x26730338, 0x9ED35707, 0x55000A85,
     0xAD56F6A1, 0x1025D43C, 0x63DD85D5, 0xCF0C02A5, 0xA6C0EC22, 0x6F60EFD7,
     0x4E1D067A, 0xB38C5089, 0x977789BC, 0x32803383, 0xB6562092, 0xDF609A67,
     0x80C9E376, 0x548B8DF1, 0x45F07B77, 0xECC0DA8C, 0x1AEEEE72, 0x50B33CDB,
     0x3F1727D3, 0xCBC532CE, 0x714E6BEA, 0x6EE02AF9, 0xAEBF8CFE, 0x3905A4D8,
     0xAA5EDB4A, 0x27D83382, 0x611A81DE, 0xD4E1FC25, 0x275F80D3, 0x6F63F8B5,
     0x4A81CBBC, 0x445384B9, 0xC189D4BD, 0xEC5FEC57, 0xD62092BC, 0x609A615F,
     0x29E31720, 0xDD4DC851, 0x5DF5FAAE, 0xE6DA0986, 0xAF008CF1, 0x8527B2BC,
     0xED7F346E, 0xE831D27C]"

text \<open>The address of that blob, as \<open>git hash-object\<close> prints it.\<close>

definition hello_address :: string where
  "hello_address = ''ce013625030ba8dba906f756967f9e9ca394464a''"

section \<open>Bytes, digits and hexadecimal\<close>

lemma IndexByte_neg: "IndexByte b c = - 1 \<longleftrightarrow> c \<notin> set b"
  by (simp add: IndexByte_def)

lemma takeWhile_upto: "c \<notin> set xs \<Longrightarrow> takeWhile (\<lambda>x. x \<noteq> c) (xs @ c # ys) = xs"
  by (induction xs) auto

lemma IndexByte_append: "c \<notin> set xs \<Longrightarrow> IndexByte (xs @ c # ys) c = int (length xs)"
  by (simp add: IndexByte_def takeWhile_upto)

lemma digit_mem: "d < 10 \<Longrightarrow> digit d \<in> set ''0123456789''"
proof -
  assume "d < 10"
  then have "d \<in> {0, 1, 2, 3, 4, 5, 6, 7, 8, 9}" by auto
  then show ?thesis by (elim insertE emptyE; simp add: digit_def char_of_def bit_Suc_0_iff)
qed

lemma decimal_digits: "set (decimal n) \<subseteq> set ''0123456789''"
proof (induction n rule: decimal.induct)
  case (1 n)
  show ?case
  proof (cases "n < 10")
    case True
    then show ?thesis using digit_mem [of n] by (subst decimal.simps) simp
  next
    case False
    have "n mod 10 < 10" by simp
    then have "digit (n mod 10) \<in> set ''0123456789''" by (rule digit_mem)
    with False 1 show ?thesis by (subst decimal.simps) simp
  qed
qed

lemma decimal_no_NUL: "NUL \<notin> set (decimal n)"
  using decimal_digits [of n] by auto

lemma decimal_0: "decimal 0 = ''0''"
  by (simp add: decimal.simps digit_def char_of_def bit_Suc_0_iff)

lemma of_char_digit: "d < 10 \<Longrightarrow> of_char (digit d) = (48 + d :: nat)"
  by (simp add: digit_def)

lemma digits_value_snoc: "digits_value (s @ [c]) = 10 * digits_value s + (of_char c - 48)"
  by (simp add: digits_value_def)

lemma digits_value_decimal: "digits_value (decimal n) = n"
proof (induction n rule: decimal.induct)
  case (1 n)
  show ?case
  proof (cases "n < 10")
    case True
    then show ?thesis
      by (subst decimal.simps) (simp add: digits_value_def of_char_digit)
  next
    case False
    with 1 show ?thesis
      by (subst decimal.simps) (simp add: digits_value_snoc of_char_digit)
  qed
qed

lemma decimal_nonempty: "decimal n \<noteq> []"
  by (subst decimal.simps) simp

lemma decimal_hd: "0 < n \<Longrightarrow> hd (decimal n) \<noteq> CHR ''0''"
proof (induction n rule: decimal.induct)
  case (1 n)
  show ?case
  proof (cases "n < 10")
    case True
    with 1(2) have "n \<in> {1, 2, 3, 4, 5, 6, 7, 8, 9}" by auto
    then show ?thesis
      by (subst decimal.simps) (elim insertE emptyE; simp add: digit_def char_of_def bit_Suc_0_iff)
  next
    case False
    then have "0 < n div 10" by simp
    with 1(1) False have "hd (decimal (n div 10)) \<noteq> CHR ''0''" by simp
    with False show ?thesis
      by (subst decimal.simps) (simp add: decimal_nonempty)
  qed
qed


lemma length_hex_EncodeToString: "length (hex_EncodeToString bs) = 2 * length bs"
  by (induction bs) (simp_all add: hex_EncodeToString_def)

lemma hextable_nth_mem: "n < 16 \<Longrightarrow> hextable ! n \<in> set hextable"
  by (rule nth_mem) (simp add: hextable_def)

lemma set_hex_EncodeToString: "set (hex_EncodeToString bs) \<subseteq> set hextable"
proof -
  have "(of_char v :: nat) div 16 < 16" for v :: char
    by (rule less_mult_imp_div_less) simp
  then show ?thesis
    by (auto simp: hex_EncodeToString_def intro: hextable_nth_mem)
qed

lemma fromHexChar_hextable: "n < 16 \<Longrightarrow> fromHexChar (hextable ! n) = Some n"
proof -
  have "[0..<16] = [0, 1, 2, 3, 4, 5, 6, 7, 8, 9, 10, 11, 12, 13, 14, 15::nat]"
    by code_simp
  moreover assume "n < 16"
  then have "n \<in> set [0..<16]" by simp
  ultimately have "n \<in> {0, 1, 2, 3, 4, 5, 6, 7, 8, 9, 10, 11, 12, 13, 14, 15}" by simp
  then show ?thesis
    by (elim insertE emptyE; simp add: hextable_def fromHexChar_def)
qed

lemma hex_DecodeString_EncodeToString: "hex_DecodeString (hex_EncodeToString bs) = Inr bs"
proof (induction bs)
  case Nil
  show ?case by (simp add: hex_EncodeToString_def)
next
  case (Cons v bs)
  have lt: "(of_char v :: nat) div 16 < 16"
    by (rule less_mult_imp_div_less) simp
  have "char_of (16 * ((of_char v :: nat) div 16) + of_char v mod 16) = v"
    by simp
  moreover have "hex_EncodeToString (v # bs) =
      hextable ! (of_char v div 16) # hextable ! (of_char v mod 16) # hex_EncodeToString bs"
    by (simp add: hex_EncodeToString_def)
  ultimately show ?case
    using Cons lt by (simp add: fromHexChar_hextable)
qed

lemma length_u32_bytes: "length (u32_bytes w) = 4"
  by (simp add: u32_bytes_def)

lemma length_sha1_Sum: "length (sha1_Sum m) = 20"
  by (cases "blocks init_chain (pad m)") (simp add: sha1_Sum_def length_u32_bytes)

lemma length_computeHash: "length (computeHash d) = 40"
  by (simp add: computeHash_def length_hex_EncodeToString length_sha1_Sum)

lemma computeHash_chars: "set (computeHash d) \<subseteq> set hextable"
  by (simp add: computeHash_def set_hex_EncodeToString)

lemma slash_not_hex: "CHR ''/'' \<notin> set hextable"
  by (simp add: hextable_def)

section \<open>Paths and the effect of \<open>writeObject\<close>\<close>

lemma prefixes_from_noslash: "CHR ''/'' \<notin> set xs \<Longrightarrow> prefixes_from acc xs = [acc @ xs]"
  by (induction xs arbitrary: acc) auto

lemma prefixes_from_objects:
  "CHR ''/'' \<notin> set xs \<Longrightarrow>
   prefixes_from [] (''.git/objects/'' @ xs) = [''.git'', ''.git/objects'', ''.git/objects/'' @ xs]"
  by (simp add: prefixes_from_noslash)

lemma dropWhile_upto: "c \<notin> set xs \<Longrightarrow> dropWhile (\<lambda>x. x \<noteq> c) (xs @ c # ys) = c # ys"
  by (induction xs) auto

lemma dirname_join: "CHR ''/'' \<notin> set n \<Longrightarrow> dirname (d @ ''/'' @ n) = d"
  by (simp add: dirname_def dropWhile_upto)

lemma computeHash_noslash: "CHR ''/'' \<notin> set (computeHash d)"
  using computeHash_chars [of d] slash_not_hex by auto

lemma noslash_take: "CHR ''/'' \<notin> set h \<Longrightarrow> CHR ''/'' \<notin> set (take n h)"
  by (auto dest: in_set_takeD)

lemma noslash_drop: "CHR ''/'' \<notin> set h \<Longrightarrow> CHR ''/'' \<notin> set (drop n h)"
  by (auto dest: in_set_dropD)

lemma is_file_iff: "is_file x \<longleftrightarrow> (\<exists>b. x = Some (File b))"
  by (cases x rule: is_file.cases) auto

lemma objectPath_alt: "objectPath h = objectDir h @ ''/'' @ drop 2 h"
  by (simp add: objectPath_def objectDir_def)

lemma os_MkdirAll_objectDir:
  assumes "CHR ''/'' \<notin> set h"
  shows "os_MkdirAll fs (objectDir h) =
     (if is_file (fs ''.git'') then Inl (PathError ''mkdir'' ''.git'')
      else if is_file (fs ''.git/objects'') then Inl (PathError ''mkdir'' ''.git/objects'')
      else if is_file (fs (objectDir h)) then Inl (PathError ''mkdir'' (objectDir h))
      else Inr (fs(''.git'' \<mapsto> Dir, ''.git/objects'' \<mapsto> Dir, objectDir h \<mapsto> Dir)))"
proof -
  have "CHR ''/'' \<notin> set (take 2 h)"
    using assms by (rule noslash_take)
  then have p: "prefixes_from [] (objectDir h) = [''.git'', ''.git/objects'', objectDir h]"
    unfolding objectDir_def by (rule prefixes_from_objects)
  have n: "objectDir h \<noteq> ''.git''" "objectDir h \<noteq> ''.git/objects''"
    by (simp_all add: objectDir_def)
  show ?thesis
    unfolding os_MkdirAll_def p using n
    by (auto simp: is_file_iff split: option.splits node.splits)
qed

lemma os_WriteFile_objectPath:
  assumes "CHR ''/'' \<notin> set h" and "fs (objectDir h) = Some Dir"
  shows "os_WriteFile fs (objectPath h) data =
     (if fs (objectPath h) = Some Dir then Inl (PathError ''open'' (objectPath h))
      else Inr (fs(objectPath h \<mapsto> File data)))"
proof -
  have "dirname (objectPath h) = objectDir h"
    unfolding objectPath_alt using assms(1) by (intro dirname_join noslash_drop)
  moreover have "objectDir h \<noteq> ''.''"
    by (simp add: objectDir_def)
  ultimately show ?thesis
    using assms(2) by (simp add: os_WriteFile_def)
qed

lemma objectPath_neq:
  "objectPath h \<noteq> ''.git''" "objectPath h \<noteq> ''.git/objects''" "objectPath h \<noteq> objectDir h"
  "''.git'' \<noteq> objectPath h" "''.git/objects'' \<noteq> objectPath h" "objectDir h \<noteq> objectPath h"
  by (simp_all add: objectPath_def objectDir_def)

lemma objectDir_neq:
  "objectDir h \<noteq> ''.git''" "objectDir h \<noteq> ''.git/objects''"
  "''.git'' \<noteq> objectDir h" "''.git/objects'' \<noteq> objectDir h"
  by (simp_all add: objectDir_def)

lemma writeObject_cases:
  "writeObject z k p fs =
    (let h = computeHash (envelope k p) in
     if is_file (fs ''.git'') then (Inl (PathError ''mkdir'' ''.git''), fs)
     else if is_file (fs ''.git/objects'') then (Inl (PathError ''mkdir'' ''.git/objects''), fs)
     else if is_file (fs (objectDir h)) then (Inl (PathError ''mkdir'' (objectDir h)), fs)
     else if fs (objectPath h) = Some Dir then
       (Inl (PathError ''open'' (objectPath h)),
        fs(''.git'' \<mapsto> Dir, ''.git/objects'' \<mapsto> Dir, objectDir h \<mapsto> Dir))
     else (Inr h,
        fs(''.git'' \<mapsto> Dir, ''.git/objects'' \<mapsto> Dir, objectDir h \<mapsto> Dir,
           objectPath h \<mapsto> File (deflate z (envelope k p)))))"
proof -
  define h where "h = computeHash (envelope k p)"
  have ns: "CHR ''/'' \<notin> set h"
    unfolding h_def by (rule computeHash_noslash)
  have w: "writeObject z k p fs =
    (case os_MkdirAll fs (objectDir h) of
       Inl err \<Rightarrow> (Inl err, fs)
     | Inr fs1 \<Rightarrow>
        (case os_WriteFile fs1 (objectPath h) (deflate z (envelope k p)) of
           Inl err \<Rightarrow> (Inl err, fs1)
         | Inr fs2 \<Rightarrow> (Inr h, fs2)))"
    unfolding writeObject_def Let_def h_def envelope_def objectDir_def objectPath_def
    by (simp split: sum.splits)
  let ?fs1 = "fs(''.git'' \<mapsto> Dir, ''.git/objects'' \<mapsto> Dir, objectDir h \<mapsto> Dir)"
  have d: "?fs1 (objectDir h) = Some Dir" by simp
  have f: "?fs1 (objectPath h) = fs (objectPath h)"
    using objectPath_neq [of h] by simp
  show ?thesis
    unfolding w Let_def h_def [symmetric]
    by (simp add: os_MkdirAll_objectDir [OF ns] os_WriteFile_objectPath [of h ?fs1, OF ns d]
        objectPath_neq objectDir_neq)
qed

section \<open>The SHA-1 of the blob \<open>hello\<close>\<close>

lemma expand_numeral:
  "expand (numeral k) rs = expand (pred_numeral k) (rotl 1 (rs ! 2 XOR rs ! 7 XOR rs ! 13 XOR rs ! 15) # rs)"
  by (simp add: numeral_eq_Suc)

lemma expand_1: "expand 1 rs = rotl 1 (rs ! 2 XOR rs ! 7 XOR rs ! 13 XOR rs ! 15) # rs"
  by simp

lemma replicate_numeral: "replicate (numeral k) x = x # replicate (pred_numeral k) x"
  by (simp add: numeral_eq_Suc)

lemma hello_envelope: "envelope ''blob'' hello = ''blob 6'' @ NUL # hello"
  by (simp add: envelope_def hello_def decimal.simps digit_def char_of_def bit_Suc_0_iff)

lemma hello_pad:
  "pad (envelope ''blob'' hello) = ''blob 6'' @ NUL # hello @ CHR 0x80 # replicate 49 NUL @ [CHR 0x68]"
  unfolding hello_envelope
  by (simp add: hello_def pad_def u64_bytes_def char_of_def replicate_numeral bit_Suc_0_iff)

lemma hello_schedule: "schedule (take 64 (pad (envelope ''blob'' hello))) = hello_W"
  unfolding hello_pad
  by (simp add: hello_def hello_W_def schedule_def be32_def rotl_def
      expand_numeral expand_1 replicate_numeral)

lemma hello_rounds_0:
  "foldl (round1 f0 0x5A827999) init_chain (take 20 hello_W) =
     (0x823E5430, 0x5F8C421F, 0x8E590734, 0x25028A21, 0x06B0658A)"
  by (simp add: hello_W_def init_chain_def f0_def rotl_def)

lemma hello_rounds_1:
  "foldl (round1 f1 0x6ED9EBA1) (0x823E5430, 0x5F8C421F, 0x8E590734, 0x25028A21, 0x06B0658A)
     (take 20 (drop 20 hello_W)) =
     (0xC379FCC4, 0x3D976607, 0x584781C0, 0xAE34F219, 0xF3BB3303)"
  by (simp add: hello_W_def f1_def rotl_def)

lemma hello_rounds_2:
  "foldl (round1 f2 0x8F1BBCDC) (0xC379FCC4, 0x3D976607, 0x584781C0, 0xAE34F219, 0xF3BB3303)
     (take 20 (drop 40 hello_W)) =
     (0x615CADD8, 0xBF6BCD68, 0x0EE0FE8E, 0xC6EBF9E0, 0xAA5A5C50)"
  by (simp add: hello_W_def f2_def rotl_def)

lemma hello_rounds_3:
  "foldl (round1 f1 0xCA62C1D6) (0x615CADD8, 0xBF6BCD68, 0x0EE0FE8E, 0xC6EBF9E0, 0xAA5A5C50)
     (drop 60 hello_W) =
     (0x66BC1324, 0x133DFD52, 0x104C1A58, 0x864D4A26, 0xDFC1645A)"
  by (simp add: hello_W_def f1_def rotl_def)

lemma hello_block:
  "block init_chain (take 64 (pad (envelope ''blob'' hello))) =
     (0xCE013625, 0x030BA8DB, 0xA906F756, 0x967F9E9C, 0xA394464A)"
proof -
  have "rounds init_chain hello_W = (0x66BC1324, 0x133DFD52, 0x104C1A58, 0x864D4A26, 0xDFC1645A)"
    by (simp only: rounds_def hello_rounds_0 hello_rounds_1 hello_rounds_2 hello_rounds_3)
  then show ?thesis
    by (simp add: block_def hello_schedule init_chain_def)
qed

lemma hello_sha1:
  "sha1_Sum (envelope ''blob'' hello) =
     digest_bytes (0xCE013625, 0x030BA8DB, 0xA906F756, 0x967F9E9C, 0xA394464A)"
proof -
  have "length (pad (envelope ''blob'' hello)) = 64"
    unfolding hello_pad by (simp add: hello_def)
  then have "blocks init_chain (pad (envelope ''blob'' hello)) =
      block init_chain (take 64 (pad (envelope ''blob'' hello)))"
    by (simp add: blocks.simps [of _ "pad (envelope ''blob'' hello)"] blocks.simps [of _ "[]"])
  then show ?thesis
    by (simp only: sha1_Sum_def hello_block)
qed

lemma hello_hash: "computeHash (envelope ''blob'' hello) = hello_address"
  by (simp add: computeHash_def hello_sha1 hex_EncodeToString_def hextable_def u32_bytes_def
      char_of_def bit_Suc_0_iff hello_address_def)

section \<open>The store stays usable\<close>

lemma zlib_ok_stored: "zlib_ok zlib_stored"
  by (simp add: zlib_ok_def zlib_stored_def)

lemma cmd_init_empty:
  "cmd_init Map.empty =
     [''.git/objects'' \<mapsto> Dir, ''.git'' \<mapsto> Dir, ''.git/refs'' \<mapsto> Dir,
      ''.git/HEAD'' \<mapsto> File ''ref: refs/heads/main\<newline>'']"
  by (simp add: cmd_init_def os_MkdirAll_def os_WriteFile_def dirname_def)

lemma store_ready_init: "store_ready (cmd_init Map.empty)"
  by (simp add: cmd_init_empty store_ready_def objectDir_def objectPath_def)

lemma objectDir_neq_objectPath:
  assumes "length h = 40"
  shows "objectDir h' \<noteq> objectPath h"
proof
  assume "objectDir h' = objectPath h"
  then have "length (objectDir h') = length (objectPath h)" by simp
  with assms show False by (simp add: objectDir_def objectPath_def)
qed

lemma objectPath_neq_objectDir:
  assumes "CHR ''/'' \<notin> set h"
  shows "objectPath h' \<noteq> objectDir h"
proof
  assume "objectPath h' = objectDir h"
  then have "take 2 h' @ ''/'' @ drop 2 h' = take 2 h"
    by (simp add: objectDir_def objectPath_def)
  then have "CHR ''/'' \<in> set (take 2 h)"
    by (metis append_Cons in_set_conv_decomp)
  with assms show False by (auto dest: in_set_takeD)
qed

lemma writeObject_ready:
  assumes "store_ready fs"
  shows "writeObject z k p fs =
     (Inr (computeHash (envelope k p)),
      fs(''.git'' \<mapsto> Dir, ''.git/objects'' \<mapsto> Dir,
         objectDir (computeHash (envelope k p)) \<mapsto> Dir,
         objectPath (computeHash (envelope k p)) \<mapsto> File (deflate z (envelope k p))))"
  using assms by (simp add: writeObject_cases store_ready_def Let_def)

lemma store_ready_writeObject:
  assumes "store_ready fs" and "writeObject z k p fs = (r, fs')"
  shows "store_ready fs'"
proof -
  define h where "h = computeHash (envelope k p)"
  have len: "length h = 40" and ns: "CHR ''/'' \<notin> set h"
    by (simp_all add: h_def length_computeHash computeHash_noslash)
  have fs': "fs' = fs(''.git'' \<mapsto> Dir, ''.git/objects'' \<mapsto> Dir, objectDir h \<mapsto> Dir,
      objectPath h \<mapsto> File (deflate z (envelope k p)))"
    using assms(2) by (simp add: writeObject_ready [OF assms(1)] h_def)
  show ?thesis
    unfolding fs' using assms(1) objectDir_neq_objectPath [OF len] objectPath_neq_objectDir [OF ns]
    by (simp add: store_ready_def objectPath_neq objectDir_neq)
qed

lemma writeObject_InrD:
  assumes "writeObject z k p fs = (Inr a, fs')"
  shows "a = computeHash (envelope k p)"
    and "fs' = fs(''.git'' \<mapsto> Dir, ''.git/objects'' \<mapsto> Dir, objectDir a \<mapsto> Dir,
           objectPath a \<mapsto> File (deflate z (envelope k p)))"
    and "\<not> is_file (fs ''.git'')" and "\<not> is_file (fs ''.git/objects'')"
    and "\<not> is_file (fs (objectDir a))" and "fs (objectPath a) \<noteq> Some Dir"
  using assms by (auto simp: writeObject_cases Let_def split: if_splits)

section \<open>Reading back what was written\<close>

lemma envelope_split:
  "envelope k p = (k @ '' '' @ decimal (length p)) @ NUL # p"
  by (simp add: envelope_def)

lemma cat_file_objectPath:
  "cat_file z fs hash =
     (if length hash < 40 then Inl (ErrorsNew ''invalid hash'')
      else case os_ReadFile fs (objectPath hash) of
        Inl err \<Rightarrow> Inl err
      | Inr b \<Rightarrow>
          (case inflate z b of
             None \<Rightarrow> Inl ZlibError
           | Some content \<Rightarrow>
               (let nullIndex = IndexByte content NUL
                in if nullIndex = - 1 then Inl (ErrorsNew ''invalid git object format'')
                   else Inr (drop (nat (nullIndex + 1)) content))))"
  unfolding cat_file_def objectPath_def by (rule refl)

lemma nat_int_succ: "nat (int n + 1) = Suc n"
  by arith

lemma cat_file_stored:
  assumes "inflate z b = Some (pre @ NUL # rest)" and "NUL \<notin> set pre"
    and "fs (objectPath h) = Some (File b)" and "40 \<le> length h"
  shows "cat_file z fs h = Inr rest"
proof -
  have "IndexByte (pre @ NUL # rest) NUL = int (length pre)"
    using assms(2) by (rule IndexByte_append)
  then show ?thesis
    using assms(1,3,4) by (simp add: cat_file_objectPath os_ReadFile_def nat_int_succ)
qed

lemma cat_file_written:
  assumes "zlib_ok z" and "NUL \<notin> set kind"
    and "writeObject z kind payload fs = (Inr address, fs')"
  shows "cat_file z fs' address = Inr payload"
proof -
  note w = writeObject_InrD [OF assms(3)]
  have "inflate z (deflate z (envelope kind payload)) =
      Some ((kind @ '' '' @ decimal (length payload)) @ NUL # payload)"
    using assms(1) by (simp add: zlib_ok_def envelope_split)
  moreover have "NUL \<notin> set (kind @ '' '' @ decimal (length payload))"
    using assms(2) decimal_no_NUL by simp
  moreover have "fs' (objectPath address) = Some (File (deflate z (envelope kind payload)))"
    by (subst w(2)) simp
  moreover have "40 \<le> length address"
    by (simp add: w(1) length_computeHash)
  ultimately show ?thesis by (rule cat_file_stored)
qed

lemma hello_written:
  "writeObject zlib_stored ''blob'' hello (cmd_init Map.empty) =
     (Inr hello_address,
      (cmd_init Map.empty)(''.git'' \<mapsto> Dir, ''.git/objects'' \<mapsto> Dir,
         objectDir hello_address \<mapsto> Dir,
         objectPath hello_address \<mapsto> File (deflate zlib_stored (envelope ''blob'' hello))))"
  by (simp add: writeObject_ready [OF store_ready_init] hello_hash)


section \<open>The claims about \<open>writeObject\<close>\<close>

text \<open>
  Claim C2. For every kind and payload, \<open>writeObject\<close> hashes the envelope made of the kind,
  one space, the length of the payload in decimal, a NUL byte and the payload; the address it
  returns is the 40 hexadecimal characters of that digest; the compressed envelope is the file
  \<open>.git/objects/\<close> + the first two characters + \<open>/\<close> + the other 38, and the directories on the
  way exist afterwards. It succeeds whenever nothing is in the way of an object. The decimal
  length denotes the length, consists of digits, has no leading zero, and 0 is rendered \<open>0\<close>.
\<close>

theorem writeObject_envelope_and_path:
  "(store_ready fs \<longrightarrow> (\<exists>address fs'. writeObject z kind payload fs = (Inr address, fs'))) \<and>
   (\<forall>address fs'. writeObject z kind payload fs = (Inr address, fs') \<longrightarrow>
      address = computeHash (kind @ '' '' @ decimal (length payload) @ [NUL] @ payload) \<and>
      length address = 40 \<and>
      fs' (''.git/objects/'' @ take 2 address @ ''/'' @ drop 2 address) =
        Some (File (deflate z (kind @ '' '' @ decimal (length payload) @ [NUL] @ payload))) \<and>
      fs' (''.git/objects/'' @ take 2 address) = Some Dir \<and>
      fs' ''.git/objects'' = Some Dir \<and> fs' ''.git'' = Some Dir) \<and>
   digits_value (decimal (length payload)) = length payload \<and>
   set (decimal (length payload)) \<subseteq> set ''0123456789'' \<and>
   (0 < length payload \<longrightarrow> hd (decimal (length payload)) \<noteq> CHR ''0'') \<and>
   decimal 0 = ''0''"
proof (intro conjI allI impI)
  assume "store_ready fs"
  then show "\<exists>address fs'. writeObject z kind payload fs = (Inr address, fs')"
    by (simp add: writeObject_ready)
next
  fix address fs'
  assume w: "writeObject z kind payload fs = (Inr address, fs')"
  note d = writeObject_InrD [OF w]
  show "address = computeHash (kind @ '' '' @ decimal (length payload) @ [NUL] @ payload)"
    using d(1) by (simp add: envelope_def)
  show "length address = 40"
    using d(1) by (simp add: length_computeHash)
  have "fs' (objectPath address) = Some (File (deflate z (envelope kind payload)))"
    by (subst d(2)) simp
  then show "fs' (''.git/objects/'' @ take 2 address @ ''/'' @ drop 2 address) =
      Some (File (deflate z (kind @ '' '' @ decimal (length payload) @ [NUL] @ payload)))"
    by (simp add: objectPath_def envelope_def)
  have "fs' (objectDir address) = Some Dir"
    by (subst d(2)) (simp add: objectPath_neq)
  then show "fs' (''.git/objects/'' @ take 2 address) = Some Dir"
    by (simp add: objectDir_def)
  show "fs' ''.git/objects'' = Some Dir"
    by (subst d(2)) (simp add: objectPath_neq objectDir_neq)
  show "fs' ''.git'' = Some Dir"
    by (subst d(2)) (simp add: objectPath_neq objectDir_neq)
next
  show "digits_value (decimal (length payload)) = length payload"
    by (rule digits_value_decimal)
  show "set (decimal (length payload)) \<subseteq> set ''0123456789''"
    by (rule decimal_digits)
  show "hd (decimal (length payload)) \<noteq> CHR ''0''" if "0 < length payload"
    using that by (rule decimal_hd)
  show "decimal 0 = ''0''"
    by (rule decimal_0)
qed

text \<open>
  The blob \<open>hello\<close> written into a fresh repository: the hypotheses of C2 hold there, and the
  file, the directory and the rendered length are the expected ones.
\<close>

theorem writeObject_envelope_and_path_witness:
  "store_ready (cmd_init Map.empty) \<and>
   (\<exists>fs'. writeObject zlib_stored ''blob'' ''hello\<newline>'' (cmd_init Map.empty) =
       (Inr ''ce013625030ba8dba906f756967f9e9ca394464a'', fs') \<and>
     fs' ''.git/objects/ce/013625030ba8dba906f756967f9e9ca394464a'' =
       Some (File (CHR 0x78 # CHR 0x9C # ''blob 6'' @ NUL # ''hello\<newline>'')) \<and>
     fs' ''.git/objects/ce'' = Some Dir) \<and>
   0 < length ''hello\<newline>'' \<and> decimal (length ''hello\<newline>'') = ''6''"
proof -
  let ?fs' = "snd (writeObject zlib_stored ''blob'' hello (cmd_init Map.empty))"
  have w: "writeObject zlib_stored ''blob'' hello (cmd_init Map.empty) = (Inr hello_address, ?fs')"
    by (simp add: hello_written)
  from writeObject_envelope_and_path [of "cmd_init Map.empty" zlib_stored "''blob''" hello]
  have "fs' (''.git/objects/'' @ take 2 address @ ''/'' @ drop 2 address) =
        Some (File (deflate zlib_stored (''blob'' @ '' '' @ decimal (length hello) @ [NUL] @ hello))) \<and>
      fs' (''.git/objects/'' @ take 2 address) = Some Dir"
    if "writeObject zlib_stored ''blob'' hello (cmd_init Map.empty) = (Inr address, fs')"
    for address fs'
    using that by blast
  from this [OF w] have
    "?fs' ''.git/objects/ce/013625030ba8dba906f756967f9e9ca394464a'' =
       Some (File (CHR 0x78 # CHR 0x9C # ''blob 6'' @ NUL # ''hello\<newline>''))"
    "?fs' ''.git/objects/ce'' = Some Dir"
    by (simp_all add: hello_address_def hello_def zlib_stored_def decimal.simps digit_def
        char_of_def bit_Suc_0_iff)
  with w show ?thesis
    by (auto simp: store_ready_init hello_def hello_address_def decimal.simps digit_def
        char_of_def bit_Suc_0_iff)
qed

text \<open>
  Claim C8. When \<open>writeObject\<close> has returned an address, calling it again with the same kind
  and payload returns the same address without an error and leaves the file system as it was;
  the file of the address holds the compressed envelope before and after.
\<close>

theorem writeObject_twice:
  assumes "writeObject z kind payload fs = (Inr address, fs1)"
  shows "writeObject z kind payload fs1 = (Inr address, fs1) \<and>
         fs1 (objectPath address) = Some (File (deflate z (envelope kind payload)))"
proof -
  note d = writeObject_InrD [OF assms]
  have f: "fs1 (objectPath address) = Some (File (deflate z (envelope kind payload)))"
    by (subst d(2)) simp
  have dirs: "fs1 ''.git'' = Some Dir" "fs1 ''.git/objects'' = Some Dir"
      "fs1 (objectDir address) = Some Dir"
    by (subst d(2), simp add: objectPath_neq objectDir_neq)+
  have "fs1(''.git'' \<mapsto> Dir, ''.git/objects'' \<mapsto> Dir, objectDir address \<mapsto> Dir,
      objectPath address \<mapsto> File (deflate z (envelope kind payload))) = fs1"
    using f dirs by (auto simp: fun_eq_iff)
  then have "writeObject z kind payload fs1 = (Inr address, fs1)"
    using f dirs d(1) by (simp add: writeObject_cases Let_def)
  with f show ?thesis by simp
qed

text \<open>The blob \<open>hello\<close> written twice into a fresh repository.\<close>

theorem writeObject_twice_witness:
  "\<exists>fs1. writeObject zlib_stored ''blob'' ''hello\<newline>'' (cmd_init Map.empty) =
       (Inr ''ce013625030ba8dba906f756967f9e9ca394464a'', fs1) \<and>
     writeObject zlib_stored ''blob'' ''hello\<newline>'' fs1 =
       (Inr ''ce013625030ba8dba906f756967f9e9ca394464a'', fs1)"
  using writeObject_twice [OF hello_written] hello_written
  by (simp add: hello_def hello_address_def)

lemma read_back_ready:
  assumes "zlib_ok z" and "NUL \<notin> set kind" and "store_ready fs"
  shows "read_back z kind payload fs = Inr payload"
proof -
  obtain fs' where w: "writeObject z kind payload fs = (Inr (computeHash (envelope kind payload)), fs')"
    using writeObject_ready [OF assms(3)] by blast
  from cat_file_written [OF assms(1,2) w] w show ?thesis
    by (simp add: read_back_def)
qed

section \<open>The claims about reading back\<close>

text \<open>
  Claim C1, as the code has it. For every codec that reads back what it wrote, every kind
  without a NUL byte and every payload: the object that \<open>writeObject\<close> stored, read by
  \<open>cat-file\<close> at the address returned, yields the payload unchanged. The read path returns the
  payload only, not the kind. Where nothing is in the way of an object, writing succeeds, so
  writing and reading back returns the payload.
\<close>

theorem read_back_payload:
  assumes "zlib_ok z" and "NUL \<notin> set kind"
  shows "(store_ready fs \<longrightarrow> read_back z kind payload fs = Inr payload) \<and>
         (\<forall>address fs'. writeObject z kind payload fs = (Inr address, fs') \<longrightarrow>
            cat_file z fs' address = Inr payload)"
  using assms by (auto intro: read_back_ready cat_file_written)

text \<open>The blob \<open>hello\<close> in a fresh repository meets the hypotheses of C1.\<close>

theorem read_back_payload_witness:
  "zlib_ok zlib_stored \<and> NUL \<notin> set ''blob'' \<and> store_ready (cmd_init Map.empty) \<and>
   read_back zlib_stored ''blob'' ''hello\<newline>'' (cmd_init Map.empty) = Inr ''hello\<newline>''"
proof -
  have n: "NUL \<notin> set ''blob''" by simp
  from read_back_payload [OF zlib_ok_stored n, of "cmd_init Map.empty" "''hello\<newline>''"]
  show ?thesis
    using zlib_ok_stored store_ready_init by simp
qed

text \<open>
  C1 as stated fails: reading back gives the same result for the kinds \<open>blob\<close> and \<open>tree\<close>,
  so the kind is not part of it; and for a kind with a NUL byte not even the payload comes
  back.
\<close>

theorem read_back_counterexample:
  "read_back zlib_stored ''blob'' [] (cmd_init Map.empty) = Inr [] \<and>
   read_back zlib_stored ''tree'' [] (cmd_init Map.empty) = Inr [] \<and>
   read_back zlib_stored [CHR ''x'', NUL] ''y'' (cmd_init Map.empty) = Inr ('' 1'' @ NUL # ''y'')"
proof (intro conjI)
  show "read_back zlib_stored ''blob'' [] (cmd_init Map.empty) = Inr []"
    by (rule read_back_ready [OF zlib_ok_stored _ store_ready_init]) simp
  show "read_back zlib_stored ''tree'' [] (cmd_init Map.empty) = Inr []"
    by (rule read_back_ready [OF zlib_ok_stored _ store_ready_init]) simp
  let ?k = "[CHR ''x'', NUL]"
  let ?h = "computeHash (envelope ?k ''y'')"
  obtain fs' where w: "writeObject zlib_stored ?k ''y'' (cmd_init Map.empty) = (Inr ?h, fs')"
    using writeObject_ready [OF store_ready_init] by blast
  note d = writeObject_InrD [OF w]
  have e: "envelope ?k ''y'' = ''x'' @ NUL # ('' 1'' @ NUL # ''y'')"
    by (simp add: envelope_def decimal.simps digit_def char_of_def bit_Suc_0_iff)
  have "inflate zlib_stored (deflate zlib_stored (envelope ?k ''y'')) =
      Some (''x'' @ NUL # ('' 1'' @ NUL # ''y''))"
    using zlib_ok_stored by (simp only: zlib_ok_def e)
  moreover have "NUL \<notin> set ''x''" by simp
  moreover have "fs' (objectPath ?h) = Some (File (deflate zlib_stored (envelope ?k ''y'')))"
    by (subst d(2)) simp
  moreover have "40 \<le> length ?h"
    by (simp add: length_computeHash)
  ultimately have "cat_file zlib_stored fs' ?h = Inr ('' 1'' @ NUL # ''y'')"
    by (rule cat_file_stored)
  with w show "read_back zlib_stored ?k ''y'' (cmd_init Map.empty) = Inr ('' 1'' @ NUL # ''y'')"
    by (simp add: read_back_def)
qed

text \<open>
  Claim C4, as the code has it. Writing the blob \<open>hello\<close> followed by a newline returns the
  address \<open>ce013625030ba8dba906f756967f9e9ca394464a\<close>, 40 characters, and \<open>cat-file\<close> at that
  address prints the payload.
\<close>

theorem hello_blob_scenario:
  assumes "store_ready fs" and "zlib_ok z"
  shows "\<exists>fs'. writeObject z ''blob'' ''hello\<newline>'' fs =
            (Inr ''ce013625030ba8dba906f756967f9e9ca394464a'', fs') \<and>
          cat_file z fs' ''ce013625030ba8dba906f756967f9e9ca394464a'' = Inr ''hello\<newline>''"
proof -
  obtain fs' where w: "writeObject z ''blob'' hello fs = (Inr hello_address, fs')"
    using writeObject_ready [OF assms(1), of z "''blob''" hello] by (simp add: hello_hash)
  have "NUL \<notin> set ''blob''" by simp
  from cat_file_written [OF assms(2) this w] w show ?thesis
    by (auto simp: hello_def hello_address_def)
qed

text \<open>A fresh repository and the example codec meet the hypotheses of C4.\<close>

theorem hello_blob_scenario_witness:
  "store_ready (cmd_init Map.empty) \<and> zlib_ok zlib_stored \<and>
   (\<exists>fs'. writeObject zlib_stored ''blob'' ''hello\<newline>'' (cmd_init Map.empty) =
            (Inr ''ce013625030ba8dba906f756967f9e9ca394464a'', fs') \<and>
          cat_file zlib_stored fs' ''ce013625030ba8dba906f756967f9e9ca394464a'' = Inr ''hello\<newline>'')"
  using hello_blob_scenario [OF store_ready_init zlib_ok_stored] store_ready_init zlib_ok_stored
  by simp

text \<open>C4 as stated fails: the address in the claim has 39 characters and is not what is returned.\<close>

theorem hello_blob_counterexample:
  "fst (writeObject zlib_stored ''blob'' ''hello\<newline>'' (cmd_init Map.empty)) \<noteq>
     Inr ''ce013625030ba8dba906f756967f9e9ca394464''"
proof -
  have "fst (writeObject zlib_stored ''blob'' hello (cmd_init Map.empty)) = Inr hello_address"
    by (simp add: hello_written)
  then show ?thesis
    by (simp add: hello_def hello_address_def)
qed

section \<open>The parse loop of \<open>ls-tree\<close>\<close>

lemma ls_tree_objectPath:
  "ls_tree z fs nameOnly hash =
     (if length hash \<noteq> 40 then Inl (ErrorsNew ''invalid hash'')
      else case os_ReadFile fs (objectPath hash) of
        Inl err \<Rightarrow> Inl err
      | Inr b \<Rightarrow>
          (case inflate z b of
             None \<Rightarrow> Inl ZlibError
           | Some content \<Rightarrow>
               (let nullIndex = IndexByte content NUL
                in if nullIndex = - 1 then Inl (ErrorsNew ''invalid git object format'')
                   else case parseEntries [] (drop (nat (nullIndex + 1)) content) of
                          Inl err \<Rightarrow> Inl err
                        | Inr entries \<Rightarrow> Inr (printEntries nameOnly entries))))"
  unfolding ls_tree_def objectPath_def by (rule refl)

lemma parseEntries_Nil: "parseEntries acc [] = Inr acc"
  by (subst parseEntries.simps) simp

lemma parseEntries_no_space:
  "data \<noteq> [] \<Longrightarrow> CHR '' '' \<notin> set data \<Longrightarrow>
   parseEntries acc data = Inl (ErrorsNew ''malformed entry: missing mode'')"
  by (subst parseEntries.simps) (simp add: IndexByte_def)

lemma IndexByte_nonneg: "c \<notin> set xs \<Longrightarrow> IndexByte (xs @ c # ys) c \<noteq> - 1"
  by (simp add: IndexByte_append)

lemma parseEntries_no_NUL:
  assumes "CHR '' '' \<notin> set mode" and "NUL \<notin> set rest"
  shows "parseEntries acc (mode @ CHR '' '' # rest) =
     Inl (ErrorsNew ''malformed entry: missing name terminator'')"
proof -
  have "IndexByte (mode @ CHR '' '' # rest) (CHR '' '') = int (length mode)"
    using assms(1) by (rule IndexByte_append)
  moreover have "IndexByte rest NUL = - 1"
    using assms(2) by (simp add: IndexByte_neg)
  ultimately show ?thesis
    by (subst parseEntries.simps) (simp add: Let_def nat_int_succ)
qed

lemma parseEntries_short:
  assumes "CHR '' '' \<notin> set mode" and "NUL \<notin> set name" and "length rest < 20"
  shows "parseEntries acc (mode @ CHR '' '' # name @ NUL # rest) =
     Inl (ErrorsNew ''malformed entry: incomplete hash'')"
proof -
  have "IndexByte (mode @ CHR '' '' # name @ NUL # rest) (CHR '' '') = int (length mode)"
    using assms(1) by (rule IndexByte_append)
  moreover have "IndexByte (name @ NUL # rest) NUL = int (length name)"
    using assms(2) by (rule IndexByte_append)
  ultimately show ?thesis
    using assms(3) by (subst parseEntries.simps) (simp add: Let_def nat_int_succ)
qed

lemma parseEntries_entry:
  assumes "CHR '' '' \<notin> set mode" and "NUL \<notin> set name" and "length addr = 20"
  shows "parseEntries acc (mode @ CHR '' '' # name @ NUL # addr @ rest) =
     parseEntries
       (acc @ [\<lparr>Mode = mode, Name = name, Hash = sha1toHex addr, Type = gitModes_at mode\<rparr>]) rest"
proof -
  have "IndexByte (mode @ CHR '' '' # name @ NUL # addr @ rest) (CHR '' '') = int (length mode)"
    using assms(1) by (rule IndexByte_append)
  moreover have "IndexByte (name @ NUL # addr @ rest) NUL = int (length name)"
    using assms(2) by (rule IndexByte_append)
  ultimately show ?thesis
    using assms(3) by (subst parseEntries.simps) (simp add: Let_def nat_int_succ)
qed

lemma corrupt_fails:
  "corrupt data \<Longrightarrow>
   parseEntries acc data \<in> Inl ` {ErrorsNew ''malformed entry: missing mode'',
          ErrorsNew ''malformed entry: missing name terminator'',
          ErrorsNew ''malformed entry: incomplete hash''}"
proof (induction arbitrary: acc rule: corrupt.induct)
  case (no_space data)
  then show ?case by (simp add: parseEntries_no_space)
next
  case (no_NUL mode rest)
  then show ?case by (simp add: parseEntries_no_NUL)
next
  case (short_address mode name rest)
  then show ?case by (simp add: parseEntries_short)
next
  case (later_entry mode name addr rest)
  then show ?case by (simp add: parseEntries_entry)
qed

lemma fails_corrupt: "isl (parseEntries acc data) \<Longrightarrow> corrupt data"
proof (induction data arbitrary: acc rule: length_induct)
  case (1 data)
  show ?case
  proof (cases "data = []")
    case True
    with 1(2) show ?thesis by (simp add: parseEntries_Nil)
  next
    case ne: False
    show ?thesis
    proof (cases "CHR '' '' \<in> set data")
      case False
      with ne show ?thesis by (rule corrupt.no_space)
    next
      case True
      then obtain mode rest1 where d1: "data = mode @ CHR '' '' # rest1" "CHR '' '' \<notin> set mode"
        by (auto dest: split_list_first)
      show ?thesis
      proof (cases "NUL \<in> set rest1")
        case False
        with d1 show ?thesis using corrupt.no_NUL [of mode rest1] by simp
      next
        case True
        then obtain name rest2 where d2: "rest1 = name @ NUL # rest2" "NUL \<notin> set name"
          by (auto dest: split_list_first)
        show ?thesis
        proof (cases "length rest2 < 20")
          case True
          with d1 d2 show ?thesis using corrupt.short_address [of mode name rest2] by simp
        next
          case False
          define addr where "addr = take 20 rest2"
          define rest3 where "rest3 = drop 20 rest2"
          have r2: "rest2 = addr @ rest3" and la: "length addr = 20"
            using False by (simp_all add: addr_def rest3_def)
          have d: "data = mode @ CHR '' '' # name @ NUL # addr @ rest3"
            using d1 d2 r2 by simp
          have "isl (parseEntries
              (acc @ [\<lparr>Mode = mode, Name = name, Hash = sha1toHex addr, Type = gitModes_at mode\<rparr>])
              rest3)"
            using 1(2) unfolding d by (simp only: parseEntries_entry [OF d1(2) d2(2) la])
          moreover have "length rest3 < length data"
            unfolding d by simp
          ultimately have "corrupt rest3"
            using 1(1) by blast
          then show ?thesis
            unfolding d using corrupt.later_entry [OF d1(2) d2(2) la] by simp
        qed
      qed
    qed
  qed
qed

lemma parseEntries_errors:
  assumes "parseEntries acc data = Inl err"
  shows "err \<in> {ErrorsNew ''malformed entry: missing mode'',
          ErrorsNew ''malformed entry: missing name terminator'',
          ErrorsNew ''malformed entry: incomplete hash''}"
proof -
  from assms have "corrupt data"
    by (intro fails_corrupt [of acc]) simp
  from corrupt_fails [OF this, of acc] assms show ?thesis
    by auto
qed

text \<open>
  Claim C6. The parse loop fails exactly on the corrupt payloads: those where, while bytes
  remain, there is no space, or no NUL after the space, or fewer than 20 bytes after the NUL.
  Its errors are the three \<open>malformed entry\<close> errors, and the empty payload gives no entries and
  no error.
\<close>

theorem parseEntries_fails_iff_corrupt:
  "(isl (parseEntries [] data) \<longleftrightarrow> corrupt data) \<and>
   (\<forall>err. parseEntries [] data = Inl err \<longrightarrow>
      err \<in> {ErrorsNew ''malformed entry: missing mode'',
             ErrorsNew ''malformed entry: missing name terminator'',
             ErrorsNew ''malformed entry: incomplete hash''}) \<and>
   parseEntries [] [] = Inr []"
proof (intro conjI allI impI iffI)
  show "corrupt data" if "isl (parseEntries [] data)"
    using that by (rule fails_corrupt)
  show "isl (parseEntries [] data)" if "corrupt data"
    using corrupt_fails [OF that, of "[]"] by auto
  show "parseEntries [] [] = Inr []"
    by (rule parseEntries_Nil)
qed (rule parseEntries_errors)

text \<open>An entry cut off after its name is corrupt and fails; a complete entry is neither.\<close>

theorem parseEntries_fails_iff_corrupt_witness:
  "isl (parseEntries [] ''100644 a.txt'') \<and> corrupt ''100644 a.txt'' \<and>
   \<not> corrupt (''100644 a.txt'' @ NUL # replicate 20 (CHR 0x11))"
proof -
  have "parseEntries [] (''100644'' @ CHR '' '' # ''a.txt'') =
      Inl (ErrorsNew ''malformed entry: missing name terminator'')"
    by (rule parseEntries_no_NUL) simp_all
  then have a: "isl (parseEntries [] ''100644 a.txt'')" by simp
  have "parseEntries [] (''100644'' @ CHR '' '' # ''a.txt'' @ NUL # replicate 20 (CHR 0x11) @ []) =
      parseEntries ([] @ [\<lparr>Mode = ''100644'', Name = ''a.txt'',
        Hash = sha1toHex (replicate 20 (CHR 0x11)), Type = gitModes_at ''100644''\<rparr>]) []"
    by (rule parseEntries_entry) simp_all
  then have b: "\<not> isl (parseEntries [] (''100644 a.txt'' @ NUL # replicate 20 (CHR 0x11)))"
    by (simp add: parseEntries_Nil)
  from a b parseEntries_fails_iff_corrupt [of "''100644 a.txt''"]
    parseEntries_fails_iff_corrupt [of "''100644 a.txt'' @ NUL # replicate 20 (CHR 0x11)"]
  show ?thesis by blast
qed

lemma ls_tree_stored:
  assumes "inflate z b = Some (pre @ NUL # rest)" and "NUL \<notin> set pre"
    and "fs (objectPath h) = Some (File b)" and "length h = 40"
  shows "ls_tree z fs nameOnly h =
     (case parseEntries [] rest of
        Inl err \<Rightarrow> Inl err
      | Inr entries \<Rightarrow> Inr (printEntries nameOnly entries))"
proof -
  have "IndexByte (pre @ NUL # rest) NUL = int (length pre)"
    using assms(2) by (rule IndexByte_append)
  then show ?thesis
    using assms(1,3,4) by (simp add: ls_tree_objectPath os_ReadFile_def nat_int_succ)
qed

text \<open>
  Claim C5, as the code has it. \<open>cat-file\<close> and \<open>ls-tree\<close> reject an address shorter than 40
  characters with \<open>invalid hash\<close> whatever the file system holds, and \<open>ls-tree\<close> a longer one as
  well. The characters are not checked: an address of 40 characters is looked up on disk, and
  the outcome is that of the lookup.
\<close>

theorem address_length_check:
  "(length hash < 40 \<longrightarrow> cat_file z fs hash = Inl (ErrorsNew ''invalid hash'')) \<and>
   (length hash \<noteq> 40 \<longrightarrow> ls_tree z fs nameOnly hash = Inl (ErrorsNew ''invalid hash'')) \<and>
   (length hash = 40 \<longrightarrow> fs (objectPath hash) = None \<longrightarrow>
      cat_file z fs hash = Inl (PathError ''open'' (objectPath hash)) \<and>
      ls_tree z fs nameOnly hash = Inl (PathError ''open'' (objectPath hash)))"
  by (simp add: cat_file_objectPath ls_tree_objectPath os_ReadFile_def)

text \<open>A short address and a 40-character address without any hexadecimal digit.\<close>

theorem address_length_check_witness:
  "length ''abc'' < 40 \<and> length ''abc'' \<noteq> 40 \<and>
   cat_file zlib_stored (cmd_init Map.empty) ''abc'' = Inl (ErrorsNew ''invalid hash'') \<and>
   ls_tree zlib_stored (cmd_init Map.empty) True ''abc'' = Inl (ErrorsNew ''invalid hash'') \<and>
   length (replicate 40 (CHR ''z'')) = 40 \<and>
   cmd_init Map.empty (objectPath (replicate 40 (CHR ''z''))) = None \<and>
   ls_tree zlib_stored (cmd_init Map.empty) True (replicate 40 (CHR ''z'')) =
     Inl (PathError ''open'' (objectPath (replicate 40 (CHR ''z''))))"
proof -
  have n: "cmd_init Map.empty (objectPath (replicate 40 (CHR ''z''))) = None"
    by (simp add: cmd_init_empty objectPath_def)
  from address_length_check [of "''abc''" zlib_stored "cmd_init Map.empty" True]
    address_length_check [of "replicate 40 (CHR ''z'')" zlib_stored "cmd_init Map.empty" True] n
  show ?thesis by simp
qed

text \<open>
  C5 as stated fails: an address of 40 characters, none of them a hexadecimal digit, is not
  rejected. Both commands read the file it names and succeed.
\<close>

theorem address_check_counterexample:
  "ls_tree zlib_stored
     [objectPath (replicate 40 (CHR ''z'')) \<mapsto> File (deflate zlib_stored (envelope ''tree'' []))]
     False (replicate 40 (CHR ''z'')) = Inr [] \<and>
   cat_file zlib_stored
     [objectPath (replicate 40 (CHR ''z'')) \<mapsto> File (deflate zlib_stored (envelope ''tree'' []))]
     (replicate 40 (CHR ''z'')) = Inr [] \<and>
   set (replicate 40 (CHR ''z'')) \<inter> set hextable = {}"
proof -
  let ?fs = "[objectPath (replicate 40 (CHR ''z'')) \<mapsto>
      File (deflate zlib_stored (envelope ''tree'' []))]"
  have i: "inflate zlib_stored (deflate zlib_stored (envelope ''tree'' [])) =
      Some ((''tree'' @ '' '' @ decimal (length ([] :: bytes))) @ NUL # [])"
    using zlib_ok_stored by (simp only: zlib_ok_def envelope_split)
  have n: "NUL \<notin> set (''tree'' @ '' '' @ decimal (length ([] :: bytes)))"
    using decimal_no_NUL by simp
  have f: "?fs (objectPath (replicate 40 (CHR ''z''))) =
      Some (File (deflate zlib_stored (envelope ''tree'' [])))"
    by simp
  have "ls_tree zlib_stored ?fs False (replicate 40 (CHR ''z'')) = Inr []"
    by (subst ls_tree_stored [where fs = ?fs and h = "replicate 40 (CHR ''z'')", OF i n f])
      (simp_all add: parseEntries_Nil printEntries_def)
  moreover have "cat_file zlib_stored ?fs (replicate 40 (CHR ''z'')) = Inr []"
    by (rule cat_file_stored [where fs = ?fs and h = "replicate 40 (CHR ''z'')", OF i n f]) simp
  moreover have "set (replicate 40 (CHR ''z'')) \<inter> set hextable = {}"
    by (simp add: hextable_def)
  ultimately show ?thesis by blast
qed

text \<open>
  Claim C9. \<open>ls-tree --name-only\<close> without an address, three arguments in all, passes the
  check of the argument count and panics on \<open>os.Args[3]\<close>.
\<close>

theorem ls_tree_name_only_without_hash:
  "cmd_ls_tree z fs [prog, cmd, ''--name-only''] =
     Panic ''runtime error: index out of range [3] with length 3''"
  by (simp add: cmd_ls_tree_def decimal.simps digit_def char_of_def bit_Suc_0_iff)

section \<open>The tree format\<close>

lemma hextable_mem_nth:
  assumes "c \<in> set hextable"
  shows "\<exists>n<16. c = hextable ! n"
proof -
  from assms obtain i where "i < length hextable" "hextable ! i = c"
    unfolding in_set_conv_nth by blast
  moreover have "length hextable = 16"
    by (simp add: hextable_def)
  ultimately show ?thesis by auto
qed

lemma hex_pair:
  assumes "a < 16" and "b < 16"
  shows "hex_EncodeToString [char_of (16 * a + b)] = [hextable ! a, hextable ! b]"
proof -
  have "16 * a + b < 256" using assms by simp
  then have "(of_char (char_of (16 * a + b)) :: nat) = 16 * a + b"
    by simp
  then show ?thesis
    using assms by (simp add: hex_EncodeToString_def)
qed

lemma hex_EncodeToString_Cons:
  "hex_EncodeToString (v # bs) = hex_EncodeToString [v] @ hex_EncodeToString bs"
  by (simp add: hex_EncodeToString_def)

lemma hex_DecodeString_hex:
  "even (length h) \<Longrightarrow> set h \<subseteq> set hextable \<Longrightarrow>
   \<exists>b. hex_DecodeString h = Inr b \<and> hex_EncodeToString b = h \<and> 2 * length b = length h"
proof (induction h rule: hex_DecodeString.induct)
  case (1 p q rest)
  from 1(3) obtain a c where a: "a < 16" "p = hextable ! a" and c: "c < 16" "q = hextable ! c"
    using hextable_mem_nth [of p] hextable_mem_nth [of q] by auto
  have f: "fromHexChar p = Some a" "fromHexChar q = Some c"
    using a c by (simp_all add: fromHexChar_hextable)
  from 1(2,3) have "even (length rest)" "set rest \<subseteq> set hextable" by simp_all
  with 1(1) [OF refl f(1) f(2)] obtain b where
    b: "hex_DecodeString rest = Inr b" "hex_EncodeToString b = rest" "2 * length b = length rest"
    by blast
  have "hex_EncodeToString (char_of (16 * a + c) # b) = p # q # rest"
    using hex_pair [OF a(1) c(1)] a(2) c(2) b(2)
    by (subst hex_EncodeToString_Cons) simp
  with f b show ?case by simp
next
  case (2 p)
  then show ?case by simp
next
  case 3
  show ?case by (simp add: hex_EncodeToString_def)
qed

lemma entry_ok_address:
  assumes "entry_ok e"
  shows "hex_DecodeString (Hash e) = Inr (address_bytes (Hash e))"
    and "length (address_bytes (Hash e)) = 20"
    and "sha1toHex (address_bytes (Hash e)) = Hash e"
proof -
  from assms have "even (length (Hash e))" "set (Hash e) \<subseteq> set hextable" "length (Hash e) = 40"
    by (simp_all add: entry_ok_def)
  with hex_DecodeString_hex [of "Hash e"] obtain b where
    b: "hex_DecodeString (Hash e) = Inr b" "hex_EncodeToString b = Hash e" "2 * length b = 40"
    by auto
  then have ab: "address_bytes (Hash e) = b"
    by (simp add: address_bytes_def)
  show "hex_DecodeString (Hash e) = Inr (address_bytes (Hash e))"
    using b(1) ab by simp
  show "length (address_bytes (Hash e)) = 20"
    using b(3) ab by simp
  show "sha1toHex (address_bytes (Hash e)) = Hash e"
    using b(2) ab by (simp add: sha1toHex_def)
qed

lemma serializeEntries_ok:
  "\<forall>e \<in> set es. entry_ok e \<Longrightarrow>
   serializeEntries es acc = Inr (acc @ concat (map entry_bytes es))"
proof (induction es arbitrary: acc)
  case Nil
  show ?case by simp
next
  case (Cons e es)
  then have "entry_ok e" by simp
  note a = entry_ok_address [OF this]
  from Cons show ?case
    by (simp add: a(1) entry_bytes_def)
qed

lemma parseEntries_entry_bytes:
  assumes "entry_ok e"
  shows "parseEntries acc (entry_bytes e @ rest) = parseEntries (acc @ [listed e]) rest"
proof -
  note a = entry_ok_address [OF assms]
  from assms have m: "CHR '' '' \<notin> set (Mode e)" and n: "NUL \<notin> set (Name e)"
    by (simp_all add: entry_ok_def)
  show ?thesis
    using parseEntries_entry [OF m n a(2), of acc rest]
    by (simp add: entry_bytes_def listed_def a(3))
qed

lemma parseEntries_ok:
  "\<forall>e \<in> set es. entry_ok e \<Longrightarrow>
   parseEntries acc (concat (map entry_bytes es)) = Inr (acc @ map listed es)"
proof (induction es arbitrary: acc)
  case Nil
  show ?case by (simp add: parseEntries_Nil)
next
  case (Cons e es)
  then show ?case
    by (simp add: parseEntries_entry_bytes)
qed

section \<open>What \<open>writeTree\<close> collects\<close>

lemma writeTree_InrD:
  assumes "writeTree z p node fs = (Inr h, fs')"
  shows "\<exists>kids es payload fs1. node = WDir (Some kids) \<and>
           collectEntries z p kids [] fs = (Inr es, fs1) \<and>
           serializeEntries (sort_key Name es) [] = Inr payload \<and>
           writeObject z ''tree'' payload fs1 = (Inr h, fs')"
proof (cases node)
  case (WFile c i)
  with assms show ?thesis by simp
next
  case (WDir sub)
  show ?thesis
  proof (cases sub)
    case None
    with WDir assms show ?thesis by simp
  next
    case (Some kids)
    with WDir assms show ?thesis
      by (auto simp: sortAndSerialize_def split: prod.splits sum.splits)
  qed
qed

lemma writeTree_address:
  assumes "writeTree z p node fs = (Inr h, fs')"
  shows "h \<in> range computeHash"
proof -
  from writeTree_InrD [OF assms] obtain payload fs1
    where "writeObject z ''tree'' payload fs1 = (Inr h, fs')" by blast
  from writeObject_InrD(1) [OF this] show ?thesis by simp
qed

lemma fileMode_cases: "fileMode info = ''100644'' \<or> fileMode info = ''100755''"
  by (simp add: fileMode_def split: option.splits)

lemma collectEntries_shape:
  "collectEntries z p kids acc fs = (Inr es, fs') \<Longrightarrow>
   \<exists>new. es = acc @ new \<and>
     map Name new = filter (\<lambda>n. n \<noteq> ''.git'') (map fst kids) \<and>
     (\<forall>e \<in> set new. Mode e \<in> {''40000'', ''100644'', ''100755''} \<and> Hash e \<in> range computeHash)"
proof (induction kids arbitrary: acc fs)
  case Nil
  then show ?case by simp
next
  case (Cons kid kids)
  obtain name node where kid: "kid = (name, node)" by (cases kid)
  show ?case
  proof (cases "name = ''.git''")
    case True
    with Cons kid show ?thesis by simp
  next
    case False
    show ?thesis
    proof (cases node)
      case (WDir sub)
      with Cons.prems kid False obtain hash fs1 where
        w: "writeTree z (filepath_Join p name) node fs = (Inr hash, fs1)" and
        c: "collectEntries z p kids (acc @ [\<lparr>Mode = ''40000'', Name = name, Hash = hash\<rparr>]) fs1 =
              (Inr es, fs')"
        by (auto split: prod.splits sum.splits)
      from Cons.IH [OF c] obtain new where
        "es = (acc @ [\<lparr>Mode = ''40000'', Name = name, Hash = hash\<rparr>]) @ new"
        "map Name new = filter (\<lambda>n. n \<noteq> ''.git'') (map fst kids)"
        "\<forall>e \<in> set new. Mode e \<in> {''40000'', ''100644'', ''100755''} \<and> Hash e \<in> range computeHash"
        by blast
      with writeTree_address [OF w] kid False show ?thesis
        by (intro exI [of _ "\<lparr>Mode = ''40000'', Name = name, Hash = hash\<rparr> # new"]) simp
    next
      case (WFile content info)
      with Cons.prems kid False obtain fileContent hash fs1 where
        w: "writeObject z ''blob'' fileContent fs = (Inr hash, fs1)" and
        c: "collectEntries z p kids (acc @ [\<lparr>Mode = fileMode info, Name = name, Hash = hash\<rparr>]) fs1 =
              (Inr es, fs')"
        by (auto split: prod.splits sum.splits option.splits)
      from Cons.IH [OF c] obtain new where
        "es = (acc @ [\<lparr>Mode = fileMode info, Name = name, Hash = hash\<rparr>]) @ new"
        "map Name new = filter (\<lambda>n. n \<noteq> ''.git'') (map fst kids)"
        "\<forall>e \<in> set new. Mode e \<in> {''40000'', ''100644'', ''100755''} \<and> Hash e \<in> range computeHash"
        by blast
      with writeObject_InrD(1) [OF w] fileMode_cases [of info] kid False show ?thesis
        by (intro exI [of _ "\<lparr>Mode = fileMode info, Name = name, Hash = hash\<rparr> # new"]) auto
    qed
  qed
qed

lemma hex_DecodeString_computeHash: "hex_DecodeString (computeHash x) = Inr (sha1_Sum x)"
  by (simp add: computeHash_def hex_DecodeString_EncodeToString)

lemma serializeEntries_addresses:
  "\<forall>e \<in> set es. Hash e \<in> range computeHash \<Longrightarrow> \<exists>payload. serializeEntries es acc = Inr payload"
  by (induction es arbitrary: acc) (auto simp: hex_DecodeString_computeHash)

lemma writeTree_ready:
  "store_ready fs \<Longrightarrow> readable node \<Longrightarrow> \<forall>c i. node \<noteq> WFile c i \<Longrightarrow>
     \<exists>h fs'. writeTree z p node fs = (Inr h, fs') \<and> store_ready fs'"
  and collectEntries_ready:
  "store_ready fs \<Longrightarrow> \<forall>entry \<in> set kids. readable (snd entry) \<Longrightarrow>
     \<exists>es fs'. collectEntries z p kids acc fs = (Inr es, fs') \<and> store_ready fs'"
proof (induction z p node fs and z p kids acc fs rule: writeTree_collectEntries.induct)
  case (1 z dirPath content info fs)
  then show ?case by simp
next
  case (2 z dirPath fs)
  then show ?case by simp
next
  case (3 z dirPath entries fs)
  from 3 obtain es fs1 where
    c: "collectEntries z dirPath entries [] fs = (Inr es, fs1)" and r: "store_ready fs1"
    by auto
  from collectEntries_shape [OF c] have "\<forall>e \<in> set (sort_key Name es). Hash e \<in> range computeHash"
    by auto
  from serializeEntries_addresses [OF this] obtain payload where
    s: "serializeEntries (sort_key Name es) [] = Inr payload" by blast
  obtain fs' where w: "writeObject z ''tree'' payload fs1 = (Inr (computeHash (envelope ''tree'' payload)), fs')"
    using writeObject_ready [OF r] by blast
  from store_ready_writeObject [OF r w] c s w show ?case
    by (auto simp: sortAndSerialize_def)
next
  case (4 z dirPath treeEntries fs)
  then show ?case by simp
next
  case (5 z dirPath name node rest treeEntries fs)
  from 5(6) have rn: "readable node" and rr: "\<forall>entry \<in> set rest. readable (snd entry)"
    by simp_all
  show ?case
  proof (cases "name = ''.git''")
    case True
    with 5(1) [OF True 5(5) rr] show ?thesis by simp
  next
    case False
    show ?thesis
    proof (cases node)
      case (WDir sub)
      then have "\<forall>c i. node \<noteq> WFile c i" by simp
      from 5(3) [OF False WDir 5(5) rn this] obtain hash fs1 where
        w: "writeTree z (filepath_Join dirPath name) node fs = (Inr hash, fs1)" and
        r: "store_ready fs1"
        by blast
      from 5(4) [OF False WDir w [symmetric] refl r rr] False WDir w show ?thesis
        by auto
    next
      case (WFile content info)
      with rn obtain fileContent where fc: "content = Some fileContent" by auto
      obtain fs1 where
        w: "writeObject z ''blob'' fileContent fs =
              (Inr (computeHash (envelope ''blob'' fileContent)), fs1)"
        using writeObject_ready [OF 5(5)] by blast
      have r: "store_ready fs1"
        using store_ready_writeObject [OF 5(5) w] .
      from 5(2) [OF False WFile fc w [symmetric] refl r rr] False WFile fc w show ?thesis
        by auto
    qed
  qed
qed

section \<open>The claims about trees\<close>

lemma address_ok: "h \<in> range computeHash \<Longrightarrow> length h = 40 \<and> set h \<subseteq> set hextable"
  by (auto simp: length_computeHash dest: subsetD [OF computeHash_chars])

lemma map_sort_key: "map f (sort_key f xs) = sort (map f xs)"
  by (rule properties_for_sort [symmetric]) simp_all

lemma printEntries_names:
  "printEntries True (map listed es) = concat (map (\<lambda>n. n @ [CHR 0x0A]) (map Name es))"
  by (simp add: printEntries_def listed_def comp_def)

lemma ls_tree_written:
  assumes ok: "zlib_ok z" and names: "\<forall>n \<in> set (map fst kids). NUL \<notin> set n"
    and w: "writeTree z p (WDir (Some kids)) fs = (Inr h, fs')"
  shows "\<exists>es fs1. collectEntries z p kids [] fs = (Inr es, fs1) \<and>
           ls_tree z fs' nameOnly h = Inr (printEntries nameOnly (map listed (sort_key Name es)))"
proof -
  from writeTree_InrD [OF w] obtain es payload fs1 where
    c: "collectEntries z p kids [] fs = (Inr es, fs1)" and
    s: "serializeEntries (sort_key Name es) [] = Inr payload" and
    t: "writeObject z ''tree'' payload fs1 = (Inr h, fs')"
    by auto
  from collectEntries_shape [OF c] have
    n: "map Name es = filter (\<lambda>n. n \<noteq> ''.git'') (map fst kids)" and
    m: "\<forall>e \<in> set es. Mode e \<in> {''40000'', ''100644'', ''100755''} \<and> Hash e \<in> range computeHash"
    by auto
  have eok: "entry_ok e" if "e \<in> set (sort_key Name es)" for e
  proof -
    from that have e: "e \<in> set es" by simp
    then have "Name e \<in> set (map Name es)" by simp
    then have "Name e \<in> set (map fst kids)" unfolding n by simp
    with names have "NUL \<notin> set (Name e)" by blast
    moreover from m e have "CHR '' '' \<notin> set (Mode e)" by auto
    moreover from m e address_ok [of "Hash e"]
    have "length (Hash e) = 40" "set (Hash e) \<subseteq> set hextable" by auto
    ultimately show ?thesis by (simp add: entry_ok_def)
  qed
  then have all: "\<forall>e \<in> set (sort_key Name es). entry_ok e" by blast
  from serializeEntries_ok [OF all, of "[]"] s
  have payload: "payload = concat (map entry_bytes (sort_key Name es))" by simp
  note d = writeObject_InrD [OF t]
  have i: "inflate z (deflate z (envelope ''tree'' payload)) =
      Some ((''tree'' @ '' '' @ decimal (length payload)) @ NUL # payload)"
    using ok by (simp add: zlib_ok_def envelope_split)
  have nn: "NUL \<notin> set (''tree'' @ '' '' @ decimal (length payload))"
    using decimal_no_NUL by simp
  have f: "fs' (objectPath h) = Some (File (deflate z (envelope ''tree'' payload)))"
    by (subst d(2)) simp
  have l: "length h = 40"
    by (simp add: d(1) length_computeHash)
  have "ls_tree z fs' nameOnly h =
      Inr (printEntries nameOnly (map listed (sort_key Name es)))"
    by (subst ls_tree_stored [where fs = fs' and h = h, OF i nn f l])
      (simp add: payload parseEntries_ok [OF all])
  with c show ?thesis by blast
qed

lemma Name_listed: "map Name (map listed es) = map Name es"
  by (simp add: listed_def comp_def)

lemma sortAndSerialize_roundtrip:
  assumes "\<forall>e \<in> set es. entry_ok e"
  shows "sortAndSerialize es = Inr (concat (map entry_bytes (sort_key Name es)))"
    and "parseEntries [] (concat (map entry_bytes (sort_key Name es))) =
           Inr (map listed (sort_key Name es))"
proof -
  from assms have a: "\<forall>e \<in> set (sort_key Name es). entry_ok e" by simp
  show "sortAndSerialize es = Inr (concat (map entry_bytes (sort_key Name es)))"
    using serializeEntries_ok [OF a, of "[]"] by (simp add: sortAndSerialize_def)
  show "parseEntries [] (concat (map entry_bytes (sort_key Name es))) =
      Inr (map listed (sort_key Name es))"
    using parseEntries_ok [OF a, of "[]"] by simp
qed

text \<open>
  Claim C7. The encoder of the program is the one in \<open>writeTree\<close>: it sorts by name, then
  serialises. For every list of entries that the format can hold (no space in a mode, no NUL
  in a name, addresses of 40 hexadecimal characters), encoding succeeds and decoding gives
  the entries back sorted by name, so the list comes back as it was only if it was sorted by
  name already. \<open>writeTree\<close> succeeds on a directory that can be read when nothing is in the
  way of an object. And when it succeeds on a directory, in whatever order the directory was
  listed: the entries it serialised are sorted by name, byte by byte; their names are the
  names listed, without \<open>.git\<close>; the address is that of the tree object of these entries,
  which is stored; and \<open>ls-tree --name-only\<close> at that address prints the names in ascending
  order.
\<close>

theorem tree_codec_and_order:
  "((\<forall>e \<in> set es. entry_ok e) \<longrightarrow>
      (\<exists>payload decoded.
         sortAndSerialize es = Inr payload \<and>
         parseEntries [] payload = Inr (map listed decoded) \<and>
         sorted (map Name decoded) \<and> mset decoded = mset es \<and>
         (parseEntries [] payload = Inr (map listed es) \<longrightarrow> sorted (map Name es)))) \<and>
   (store_ready fs \<longrightarrow> readable (WDir (Some kids)) \<longrightarrow>
      (\<exists>h fs'. writeTree z dirPath (WDir (Some kids)) fs = (Inr h, fs'))) \<and>
   (writeTree z dirPath (WDir (Some kids)) fs = (Inr h, fs') \<longrightarrow>
      (\<exists>entries payload.
         sorted (map Name entries) \<and>
         mset (map Name entries) = mset (filter (\<lambda>n. n \<noteq> ''.git'') (map fst kids)) \<and>
         serializeEntries entries [] = Inr payload \<and>
         h = computeHash (envelope ''tree'' payload) \<and>
         fs' (objectPath h) = Some (File (deflate z (envelope ''tree'' payload)))) \<and>
      (zlib_ok z \<longrightarrow> (\<forall>n \<in> set (map fst kids). NUL \<notin> set n) \<longrightarrow>
         ls_tree z fs' True h =
           Inr (concat (map (\<lambda>n. n @ [CHR 0x0A])
                  (sort (filter (\<lambda>n. n \<noteq> ''.git'') (map fst kids)))))))"
proof (intro conjI impI)
  assume ok: "\<forall>e \<in> set es. entry_ok e"
  note r = sortAndSerialize_roundtrip [OF ok]
  let ?payload = "concat (map entry_bytes (sort_key Name es))"
  have s: "sorted (map Name (sort_key Name es))"
    by (rule sorted_sort_key)
  have "sorted (map Name es)" if "parseEntries [] ?payload = Inr (map listed es)"
  proof -
    from that r(2) have "map listed (sort_key Name es) = map listed es" by simp
    then have "map Name (map listed (sort_key Name es)) = map Name (map listed es)" by simp
    then have "map Name (sort_key Name es) = map Name es" by (simp only: Name_listed)
    with s show ?thesis by simp
  qed
  with r s show "\<exists>payload decoded.
      sortAndSerialize es = Inr payload \<and>
      parseEntries [] payload = Inr (map listed decoded) \<and>
      sorted (map Name decoded) \<and> mset decoded = mset es \<and>
      (parseEntries [] payload = Inr (map listed es) \<longrightarrow> sorted (map Name es))"
    by (intro exI [of _ ?payload] exI [of _ "sort_key Name es"]) simp
next
  assume "store_ready fs" and "readable (WDir (Some kids))"
  then show "\<exists>h fs'. writeTree z dirPath (WDir (Some kids)) fs = (Inr h, fs')"
    using writeTree_ready [of fs "WDir (Some kids)" z dirPath] by auto
next
  assume w: "writeTree z dirPath (WDir (Some kids)) fs = (Inr h, fs')"
  from writeTree_InrD [OF w] obtain es payload fs1 where
    c: "collectEntries z dirPath kids [] fs = (Inr es, fs1)" and
    s: "serializeEntries (sort_key Name es) [] = Inr payload" and
    t: "writeObject z ''tree'' payload fs1 = (Inr h, fs')"
    by auto
  from collectEntries_shape [OF c] have
    n: "map Name es = filter (\<lambda>n. n \<noteq> ''.git'') (map fst kids)"
    by auto
  note d = writeObject_InrD [OF t]
  have "sorted (map Name (sort_key Name es))"
    by (rule sorted_sort_key)
  moreover have "mset (map Name (sort_key Name es)) =
      mset (filter (\<lambda>n. n \<noteq> ''.git'') (map fst kids))"
    by (simp add: n [symmetric])
  moreover have "fs' (objectPath h) = Some (File (deflate z (envelope ''tree'' payload)))"
    by (subst d(2)) simp
  ultimately show "\<exists>entries payload.
      sorted (map Name entries) \<and>
      mset (map Name entries) = mset (filter (\<lambda>n. n \<noteq> ''.git'') (map fst kids)) \<and>
      serializeEntries entries [] = Inr payload \<and>
      h = computeHash (envelope ''tree'' payload) \<and>
      fs' (objectPath h) = Some (File (deflate z (envelope ''tree'' payload)))"
    using s d(1) by blast
  show "ls_tree z fs' True h =
      Inr (concat (map (\<lambda>n. n @ [CHR 0x0A])
             (sort (filter (\<lambda>n. n \<noteq> ''.git'') (map fst kids)))))"
    if ok: "zlib_ok z" and names: "\<forall>n \<in> set (map fst kids). NUL \<notin> set n"
  proof -
    from ls_tree_written [OF ok names w, of True] c
    have "ls_tree z fs' True h = Inr (printEntries True (map listed (sort_key Name es)))"
      by simp
    then show ?thesis
      by (simp only: printEntries_names map_sort_key n)
  qed
qed

text \<open>
  A list of entries sorted by name comes back as it was; the same entries in the other order
  come back sorted; and a directory listed out of order with a \<open>.git\<close> in it, written into a
  fresh repository, is listed in ascending order.
\<close>

theorem tree_codec_and_order_witness:
  "entry_ok \<lparr>Mode = ''40000'', Name = ''a'', Hash = ''ce013625030ba8dba906f756967f9e9ca394464a''\<rparr> \<and>
   entry_ok \<lparr>Mode = ''100644'', Name = ''b.txt'', Hash = ''ce013625030ba8dba906f756967f9e9ca394464a''\<rparr> \<and>
   (\<exists>payload.
      sortAndSerialize
        [\<lparr>Mode = ''40000'', Name = ''a'', Hash = ''ce013625030ba8dba906f756967f9e9ca394464a''\<rparr>,
         \<lparr>Mode = ''100644'', Name = ''b.txt'', Hash = ''ce013625030ba8dba906f756967f9e9ca394464a''\<rparr>] =
        Inr payload \<and>
      parseEntries [] payload =
        Inr [listed \<lparr>Mode = ''40000'', Name = ''a'', Hash = ''ce013625030ba8dba906f756967f9e9ca394464a''\<rparr>,
             listed \<lparr>Mode = ''100644'', Name = ''b.txt'', Hash = ''ce013625030ba8dba906f756967f9e9ca394464a''\<rparr>]) \<and>
   sorted [''a'', ''b.txt''] \<and>
   (\<exists>payload.
      sortAndSerialize
        [\<lparr>Mode = ''100644'', Name = ''b.txt'', Hash = ''ce013625030ba8dba906f756967f9e9ca394464a''\<rparr>,
         \<lparr>Mode = ''40000'', Name = ''a'', Hash = ''ce013625030ba8dba906f756967f9e9ca394464a''\<rparr>] =
        Inr payload \<and>
      parseEntries [] payload =
        Inr [listed \<lparr>Mode = ''40000'', Name = ''a'', Hash = ''ce013625030ba8dba906f756967f9e9ca394464a''\<rparr>,
             listed \<lparr>Mode = ''100644'', Name = ''b.txt'', Hash = ''ce013625030ba8dba906f756967f9e9ca394464a''\<rparr>]) \<and>
   \<not> sorted [''b.txt'', ''a''] \<and>
   zlib_ok zlib_stored \<and> store_ready (cmd_init Map.empty) \<and>
   readable (WDir (Some [(''b.txt'', WFile (Some ''b'') (Some 420)), (''.git'', WDir (Some [])),
                         (''a.txt'', WFile (Some ''a'') None)])) \<and>
   NUL \<notin> set ''b.txt'' \<and> NUL \<notin> set ''.git'' \<and> NUL \<notin> set ''a.txt'' \<and>
   (\<exists>h fs'.
      writeTree zlib_stored ''.''
        (WDir (Some [(''b.txt'', WFile (Some ''b'') (Some 420)), (''.git'', WDir (Some [])),
                     (''a.txt'', WFile (Some ''a'') None)]))
        (cmd_init Map.empty) = (Inr h, fs') \<and>
      ls_tree zlib_stored fs' True h = Inr ''a.txt\<newline>b.txt\<newline>'')"
proof -
  let ?a = "\<lparr>Mode = ''40000'', Name = ''a'', Hash = ''ce013625030ba8dba906f756967f9e9ca394464a''\<rparr>"
  let ?b = "\<lparr>Mode = ''100644'', Name = ''b.txt'', Hash = ''ce013625030ba8dba906f756967f9e9ca394464a''\<rparr>"
  let ?kids = "[(''b.txt'', WFile (Some ''b'') (Some 420)), (''.git'', WDir (Some [])),
                (''a.txt'', WFile (Some ''a'') None)]"
  have ea: "entry_ok ?a" and eb: "entry_ok ?b"
    by (simp_all add: entry_ok_def hextable_def)
  then have e1: "\<forall>e \<in> set [?a, ?b]. entry_ok e" and e2: "\<forall>e \<in> set [?b, ?a]. entry_ok e"
    by simp_all
  have s1: "sort_key Name [?a, ?b] = [?a, ?b]" and s2: "sort_key Name [?b, ?a] = [?a, ?b]"
    by simp_all
  note r1 = sortAndSerialize_roundtrip [OF e1, unfolded s1]
  note r2 = sortAndSerialize_roundtrip [OF e2, unfolded s2]
  from tree_codec_and_order [of "[?a, ?b]" "cmd_init Map.empty" ?kids zlib_stored "''.''"] e1
  obtain payload where
    p: "sortAndSerialize [?a, ?b] = Inr payload"
      "parseEntries [] payload = Inr (map listed [?a, ?b]) \<longrightarrow> sorted (map Name [?a, ?b])"
    by blast
  from p(1) r1(1) have "payload = concat (map entry_bytes [?a, ?b])" by simp
  with p(2) r1(2) have so: "sorted [''a'', ''b.txt'']" by simp
  have c1: "\<exists>payload. sortAndSerialize [?a, ?b] = Inr payload \<and>
      parseEntries [] payload = Inr [listed ?a, listed ?b]"
    using r1 by simp
  have c2: "\<exists>payload. sortAndSerialize [?b, ?a] = Inr payload \<and>
      parseEntries [] payload = Inr [listed ?a, listed ?b]"
    using r2 by simp
  have ns: "\<not> sorted [''b.txt'', ''a'']"
    by simp
  have n: "\<forall>n \<in> set (map fst ?kids). NUL \<notin> set n"
    by simp
  have rd: "readable (WDir (Some ?kids))"
    by simp
  from tree_codec_and_order [of "[?a, ?b]" "cmd_init Map.empty" ?kids zlib_stored "''.''"]
    store_ready_init rd
  obtain h fs' where
    w: "writeTree zlib_stored ''.'' (WDir (Some ?kids)) (cmd_init Map.empty) = (Inr h, fs')"
    by blast
  from tree_codec_and_order [of "[?a, ?b]" "cmd_init Map.empty" ?kids zlib_stored "''.''" h fs']
    w zlib_ok_stored n
  have "ls_tree zlib_stored fs' True h = Inr ''a.txt\<newline>b.txt\<newline>''"
    by simp
  with w have l: "\<exists>h fs'.
      writeTree zlib_stored ''.'' (WDir (Some ?kids)) (cmd_init Map.empty) = (Inr h, fs') \<and>
      ls_tree zlib_stored fs' True h = Inr ''a.txt\<newline>b.txt\<newline>''"
    by blast
  from ea eb c1 so c2 ns l rd zlib_ok_stored store_ready_init show ?thesis
    by simp
qed

section \<open>Metadata that cannot be read\<close>

lemma fileMode_readable:
  "fileMode (case info of None \<Rightarrow> Some 420 | Some m \<Rightarrow> Some m) = fileMode info"
  by (simp add: fileMode_def split: option.splits)

lemma writeTree_readable_info:
  "writeTree z p (readable_info node) fs = writeTree z p node fs"
  and collectEntries_readable_info:
  "collectEntries z p (map (map_prod id readable_info) kids) acc fs = collectEntries z p kids acc fs"
proof (induction z p node fs and z p kids acc fs rule: writeTree_collectEntries.induct)
  case (1 z dirPath content info fs)
  show ?case by simp
next
  case (2 z dirPath fs)
  show ?case by simp
next
  case (3 z dirPath entries fs)
  then show ?case
    by (simp add: id_def)
next
  case (4 z dirPath treeEntries fs)
  show ?case by simp
next
  case (5 z dirPath name node rest treeEntries fs)
  show ?case
  proof (cases "name = ''.git''")
    case True
    with 5(1) show ?thesis by (simp add: id_def)
  next
    case False
    show ?thesis
    proof (cases node)
      case (WDir sub)
      have "writeTree z (filepath_Join dirPath name) (readable_info node) fs =
          writeTree z (filepath_Join dirPath name) node fs"
        using 5(3) [OF False WDir] .
      then have p: "writeTree z (filepath_Join dirPath name)
            (WDir (map_option (map (map_prod id readable_info)) sub)) fs =
          writeTree z (filepath_Join dirPath name) (WDir sub) fs"
        using WDir by (simp add: id_def)
      show ?thesis
      proof (cases "writeTree z (filepath_Join dirPath name) (WDir sub) fs")
        case (Pair r fs1)
        show ?thesis
        proof (cases r)
          case (Inl err)
          with Pair p False WDir show ?thesis by (simp add: id_def)
        next
          case (Inr hash)
          from 5(4) [OF False WDir _ Inr] Pair WDir
          have "collectEntries z dirPath (map (map_prod id readable_info) rest)
              (treeEntries @ [\<lparr>Mode = ''40000'', Name = name, Hash = hash\<rparr>]) fs1 =
            collectEntries z dirPath rest
              (treeEntries @ [\<lparr>Mode = ''40000'', Name = name, Hash = hash\<rparr>]) fs1"
            by (simp add: id_def)
          with Pair Inr p False WDir show ?thesis by (simp add: id_def)
        qed
      qed
    next
      case (WFile content info)
      show ?thesis
      proof (cases content)
        case None
        with False WFile show ?thesis by simp
      next
        case (Some fileContent)
        show ?thesis
        proof (cases "writeObject z ''blob'' fileContent fs")
          case (Pair r fs1)
          show ?thesis
          proof (cases r)
            case (Inl err)
            with Pair Some False WFile show ?thesis by simp
          next
            case (Inr hash)
            from 5(2) [OF False WFile Some _ Inr] Pair
            have "collectEntries z dirPath (map (map_prod id readable_info) rest)
                (treeEntries @ [\<lparr>Mode = fileMode info, Name = name, Hash = hash\<rparr>]) fs1 =
              collectEntries z dirPath rest
                (treeEntries @ [\<lparr>Mode = fileMode info, Name = name, Hash = hash\<rparr>]) fs1"
              by (simp add: id_def)
            with Pair Inr Some False WFile show ?thesis
              by (simp add: fileMode_readable id_def)
          qed
        qed
      qed
    qed
  qed
qed

text \<open>
  Claim C10. A file whose metadata cannot be read is treated as a file whose metadata can be
  read and has no execute bit: \<open>writeTree\<close> returns the same result and leaves the same file
  system. Whatever metadata cannot be read, \<open>writeTree\<close> succeeds on a directory whose
  directories and files can be read, when nothing is in the way of an object. The mode
  recorded for such a file is \<open>100644\<close>, and the only error its entry can cause is that of
  \<open>writeObject\<close>.
\<close>

theorem metadata_error_ignored:
  "writeTree z dirPath (readable_info node) fs = writeTree z dirPath node fs \<and>
   (store_ready fs \<longrightarrow> readable node \<longrightarrow> (\<forall>c i. node \<noteq> WFile c i) \<longrightarrow>
      (\<exists>h fs'. writeTree z dirPath node fs = (Inr h, fs'))) \<and>
   fileMode None = ''100644'' \<and>
   (name \<noteq> ''.git'' \<longrightarrow>
      collectEntries z dirPath [(name, WFile (Some content) None)] treeEntries fs =
        (case writeObject z ''blob'' content fs of
           (Inl err, fs1) \<Rightarrow> (Inl err, fs1)
         | (Inr hash, fs1) \<Rightarrow>
             (Inr (treeEntries @ [\<lparr>Mode = ''100644'', Name = name, Hash = hash\<rparr>]), fs1)))"
proof (intro conjI impI)
  show "writeTree z dirPath (readable_info node) fs = writeTree z dirPath node fs"
    by (rule writeTree_readable_info)
  show "\<exists>h fs'. writeTree z dirPath node fs = (Inr h, fs')"
    if "store_ready fs" "readable node" "\<forall>c i. node \<noteq> WFile c i"
    using writeTree_ready [OF that, of z dirPath] by blast
  show "fileMode None = ''100644''"
    by (simp add: fileMode_def)
  show "collectEntries z dirPath [(name, WFile (Some content) None)] treeEntries fs =
      (case writeObject z ''blob'' content fs of
         (Inl err, fs1) \<Rightarrow> (Inl err, fs1)
       | (Inr hash, fs1) \<Rightarrow>
           (Inr (treeEntries @ [\<lparr>Mode = ''100644'', Name = name, Hash = hash\<rparr>]), fs1))"
    if "name \<noteq> ''.git''"
    using that by (simp add: fileMode_def split: prod.splits sum.splits)
qed

text \<open>A directory with one file whose metadata cannot be read, in a fresh repository.\<close>

theorem metadata_error_ignored_witness:
  "''a.txt'' \<noteq> ''.git'' \<and>
   collectEntries zlib_stored ''.'' [(''a.txt'', WFile (Some ''a'') None)] [] (cmd_init Map.empty) =
     (Inr [\<lparr>Mode = ''100644'', Name = ''a.txt'', Hash = computeHash (envelope ''blob'' ''a'')\<rparr>],
      snd (writeObject zlib_stored ''blob'' ''a'' (cmd_init Map.empty))) \<and>
   writeTree zlib_stored ''.'' (WDir (Some [(''a.txt'', WFile (Some ''a'') None)])) (cmd_init Map.empty) =
     writeTree zlib_stored ''.'' (WDir (Some [(''a.txt'', WFile (Some ''a'') (Some 420))])) (cmd_init Map.empty) \<and>
   store_ready (cmd_init Map.empty) \<and>
   readable (WDir (Some [(''a.txt'', WFile (Some ''a'') None)])) \<and>
   (\<exists>h fs'. writeTree zlib_stored ''.'' (WDir (Some [(''a.txt'', WFile (Some ''a'') None)]))
      (cmd_init Map.empty) = (Inr h, fs'))"
proof -
  let ?node = "WDir (Some [(''a.txt'', WFile (Some ''a'') None)])"
  have n: "''a.txt'' \<noteq> ''.git''" by simp
  have r: "readable_info ?node = WDir (Some [(''a.txt'', WFile (Some ''a'') (Some 420))])"
    by simp
  from metadata_error_ignored [of zlib_stored "''.''" ?node "cmd_init Map.empty" "''a.txt''" "''a''" "[]"]
  have a: "writeTree zlib_stored ''.'' (readable_info ?node) (cmd_init Map.empty) =
        writeTree zlib_stored ''.'' ?node (cmd_init Map.empty)"
    and c: "collectEntries zlib_stored ''.'' [(''a.txt'', WFile (Some ''a'') None)] [] (cmd_init Map.empty) =
        (case writeObject zlib_stored ''blob'' ''a'' (cmd_init Map.empty) of
           (Inl err, fs1) \<Rightarrow> (Inl err, fs1)
         | (Inr hash, fs1) \<Rightarrow>
             (Inr ([] @ [\<lparr>Mode = ''100644'', Name = ''a.txt'', Hash = hash\<rparr>]), fs1))"
    and t: "store_ready (cmd_init Map.empty) \<longrightarrow> readable ?node \<longrightarrow> (\<forall>c i. ?node \<noteq> WFile c i) \<longrightarrow>
        (\<exists>h fs'. writeTree zlib_stored ''.'' ?node (cmd_init Map.empty) = (Inr h, fs'))"
    using n by blast+
  have rd: "readable ?node"
    by simp
  with t store_ready_init have s: "\<exists>h fs'. writeTree zlib_stored ''.'' ?node (cmd_init Map.empty) = (Inr h, fs')"
    by simp
  have "collectEntries zlib_stored ''.'' [(''a.txt'', WFile (Some ''a'') None)] [] (cmd_init Map.empty) =
     (Inr [\<lparr>Mode = ''100644'', Name = ''a.txt'', Hash = computeHash (envelope ''blob'' ''a'')\<rparr>],
      snd (writeObject zlib_stored ''blob'' ''a'' (cmd_init Map.empty)))"
    unfolding c by (simp add: writeObject_ready [OF store_ready_init])
  with a [unfolded r] n s rd store_ready_init show ?thesis
    by (simp only: simp_thms)
qed

section \<open>Listing a subdirectory\<close>

text \<open>
  Claim C3, evaluated on the code. A directory with the file \<open>a.txt\<close> and the subdirectory
  \<open>sub\<close> is written by \<open>writeTree\<close> into a fresh repository and listed by \<open>ls-tree\<close> without
  \<open>--name-only\<close>. The line of the file has the type \<open>blob\<close>. The line of the subdirectory has
  an empty type between two spaces: \<open>writeTree\<close> records a subdirectory with mode \<open>40000\<close>, and
  the table \<open>gitModes\<close> has \<open>tree\<close> under \<open>040000\<close> only.
\<close>

theorem ls_tree_subdirectory_type:
  "(\<exists>h fs'.
      writeTree zlib_stored ''.''
        (WDir (Some [(''a.txt'', WFile (Some ''hello\<newline>'') (Some 420)), (''sub'', WDir (Some []))]))
        (cmd_init Map.empty) = (Inr h, fs') \<and>
      ls_tree zlib_stored fs' False h =
        Inr (''100644 blob ce013625030ba8dba906f756967f9e9ca394464a a.txt\<newline>'' @
             ''40000  '' @ computeHash (envelope ''tree'' []) @ '' sub\<newline>'')) \<and>
   gitModes_at ''40000'' = [] \<and> gitModes_at ''040000'' = ''tree''"
proof -
  let ?kids = "[(''a.txt'', WFile (Some ''hello\<newline>'') (Some 420)), (''sub'', WDir (Some []))]"
  let ?fs0 = "cmd_init Map.empty"
  let ?h2 = "computeHash (envelope ''tree'' [])"
  obtain fs1 where w1: "writeObject zlib_stored ''blob'' hello ?fs0 = (Inr hello_address, fs1)"
    using hello_written by blast
  have r1: "store_ready fs1"
    using store_ready_writeObject [OF store_ready_init w1] .
  obtain fs2 where w2: "writeObject zlib_stored ''tree'' [] fs1 = (Inr ?h2, fs2)"
    using writeObject_ready [OF r1] by blast
  have c: "collectEntries zlib_stored ''.'' ?kids [] ?fs0 =
      (Inr [\<lparr>Mode = ''100644'', Name = ''a.txt'', Hash = hello_address\<rparr>,
            \<lparr>Mode = ''40000'', Name = ''sub'', Hash = ?h2\<rparr>], fs2)"
    using w1 w2 by (simp add: hello_def fileMode_def filepath_Join_def sortAndSerialize_def)
  have "readable (WDir (Some ?kids))" "\<forall>c i. WDir (Some ?kids) \<noteq> WFile c i"
    by simp_all
  from writeTree_ready [OF store_ready_init this] obtain h fs' where
    w: "writeTree zlib_stored ''.'' (WDir (Some ?kids)) ?fs0 = (Inr h, fs')"
    by blast
  have n: "\<forall>n \<in> set (map fst ?kids). NUL \<notin> set n"
    by simp
  from ls_tree_written [OF zlib_ok_stored n w, of False] c
  have "ls_tree zlib_stored fs' False h =
      Inr (printEntries False (map listed (sort_key Name
        [\<lparr>Mode = ''100644'', Name = ''a.txt'', Hash = hello_address\<rparr>,
         \<lparr>Mode = ''40000'', Name = ''sub'', Hash = ?h2\<rparr>])))"
    by simp
  then have "ls_tree zlib_stored fs' False h =
      Inr (''100644 blob ce013625030ba8dba906f756967f9e9ca394464a a.txt\<newline>'' @
           ''40000  '' @ ?h2 @ '' sub\<newline>'')"
    by (simp add: printEntries_def listed_def gitModes_at_def gitModes_def hello_address_def)
  with w show ?thesis
    by (auto simp: gitModes_at_def gitModes_def)
qed

end
